theory Spec2Isabelle
  imports Main "HOL-Library.Sublist" "HOL-Library.Stream"
begin

section \<open>Strings\<close>

text \<open>
  A string is the list of its code units. The keys of the registry are hexadecimal
  addresses, and on those \<open>String.prototype.toLowerCase\<close> acts on the letters
  \<open>A\<close>..\<open>Z\<close>, code unit by code unit: this is \<open>toLowerCase\<close> below. Names, symbols and
  search queries are arbitrary strings, on which the method follows the case mapping of
  the runtime's Unicode tables (it lower-cases letters outside ASCII too, and need not
  keep the length); \<open>searchTokens\<close> takes that mapping as a parameter. (The type
  \<open>char\<close> has 256 code units; no definition and no proof depends on their number.)
\<close>

definition lower_char :: "char \<Rightarrow> char" where
  "lower_char c =
     (case map_of (zip ''ABCDEFGHIJKLMNOPQRSTUVWXYZ'' ''abcdefghijklmnopqrstuvwxyz'') c of
        Some d \<Rightarrow> d
      | None \<Rightarrow> c)"

definition toLowerCase :: "string \<Rightarrow> string" where
  "toLowerCase s = map lower_char s"

text \<open>\<open>String.prototype.includes\<close>: the argument occurs as a contiguous substring.\<close>

fun str_includes :: "string \<Rightarrow> string \<Rightarrow> bool" where
  "str_includes [] q = (q = [])"
| "str_includes (c # cs) q = (prefix q (c # cs) \<or> str_includes cs q)"

section \<open>JavaScript values\<close>

text \<open>
  TypeScript interfaces are erased at run time, and \<open>importUserData\<close> hands objects that
  come out of \<open>JSON.parse\<close> to \<open>addUserToken\<close> after checking six of their fields only.
  So an object is modelled as what it is at run time, a finite map from property names to
  values, and the values are the JSON values and the bigints that a contract call
  delivers. A property whose value is \<open>undefined\<close> is identified with an absent property
  (as \<open>JSON.stringify\<close> does).
\<close>

datatype jsval =
    JNull
  | JBool bool
  | JNum int
  | JBigInt int
  | JStr string
  | JArr "jsval list"
  | JObj "string \<Rightarrow> jsval option"

type_synonym obj = "string \<Rightarrow> jsval option"

datatype js_error =
    TypeError
  | SyntaxError
  | Error string
  | QuotaExceededError

text \<open>\<open>typeof v === 'string'\<close> and \<open>typeof v === 'number'\<close>; \<open>None\<close> is \<open>undefined\<close>.\<close>

fun is_string :: "jsval option \<Rightarrow> bool" where
  "is_string (Some (JStr s)) = True"
| "is_string _ = False"

fun is_number :: "jsval option \<Rightarrow> bool" where
  "is_number (Some (JNum n)) = True"
| "is_number _ = False"

text \<open>\<open>v.toLowerCase()\<close>: a \<open>TypeError\<close> unless \<open>v\<close> is a string.\<close>

fun call_toLowerCase :: "jsval option \<Rightarrow> js_error + string" where
  "call_toLowerCase (Some (JStr s)) = Inr (toLowerCase s)"
| "call_toLowerCase _ = Inl TypeError"

text \<open>
  \<open>Array.prototype.findIndex\<close>, \<open>map\<close> and \<open>filter\<close> with a callback that may throw:
  the first exception ends the traversal. \<open>None\<close> is the index \<open>-1\<close>.
\<close>

fun findIndex :: "('a \<Rightarrow> js_error + bool) \<Rightarrow> 'a list \<Rightarrow> js_error + nat option" where
  "findIndex p [] = Inr None"
| "findIndex p (x # xs) =
     (case p x of
        Inl e \<Rightarrow> Inl e
      | Inr True \<Rightarrow> Inr (Some 0)
      | Inr False \<Rightarrow>
          (case findIndex p xs of
             Inl e \<Rightarrow> Inl e
           | Inr None \<Rightarrow> Inr None
           | Inr (Some i) \<Rightarrow> Inr (Some (Suc i))))"

fun array_map :: "('a \<Rightarrow> js_error + 'b) \<Rightarrow> 'a list \<Rightarrow> js_error + 'b list" where
  "array_map f [] = Inr []"
| "array_map f (x # xs) =
     (case f x of
        Inl e \<Rightarrow> Inl e
      | Inr y \<Rightarrow> (case array_map f xs of Inl e \<Rightarrow> Inl e | Inr ys \<Rightarrow> Inr (y # ys)))"

fun array_filter :: "('a \<Rightarrow> js_error + bool) \<Rightarrow> 'a list \<Rightarrow> js_error + 'a list" where
  "array_filter p [] = Inr []"
| "array_filter p (x # xs) =
     (case p x of
        Inl e \<Rightarrow> Inl e
      | Inr b \<Rightarrow>
          (case array_filter p xs of
             Inl e \<Rightarrow> Inl e
           | Inr ys \<Rightarrow> Inr (if b then x # ys else ys)))"

section \<open>The registry and the browser around it\<close>

text \<open>
  The two private maps of \<open>TokenStorage\<close> together with what its methods touch outside
  the instance: the items of \<open>localStorage\<close> (each represented by the JSON value its text
  denotes), whether \<open>localStorage.setItem\<close> takes a write (it throws when the quota is
  exceeded or storage is disabled), the messages given to \<open>console.error\<close>, and the
  readings that the coming calls of \<open>Date.now()\<close> return. Whether a write is taken may
  depend on the document: \<open>accepts\<close> also stands for a \<open>JSON.stringify\<close> that throws
  while it prepares the document, as it does on a bigint.
\<close>

record state =
  userTokens :: "string \<Rightarrow> obj list option"
  tokenMetadata :: "string \<Rightarrow> obj option"
  localStorage :: "string \<Rightarrow> jsval option"
  accepts :: "string \<Rightarrow> jsval \<Rightarrow> bool"
  console :: "string list"
  clock :: "int stream"

definition USER_TOKENS :: string where "USER_TOKENS = ''edgen_user_tokens''"
definition TOKEN_METADATA :: string where "TOKEN_METADATA = ''edgen_token_metadata''"
definition LAST_SYNC :: string where "LAST_SYNC = ''edgen_last_sync''"

definition Date_now :: "state \<Rightarrow> int \<times> state" where
  "Date_now s = (shd (clock s), s\<lparr>clock := stl (clock s)\<rparr>)"

definition setItem :: "state \<Rightarrow> string \<Rightarrow> jsval \<Rightarrow> js_error + state" where
  "setItem s k v =
     (if accepts s k v then Inr (s\<lparr>localStorage := (localStorage s)(k \<mapsto> v)\<rparr>)
      else Inl QuotaExceededError)"

definition console_error :: "state \<Rightarrow> string \<Rightarrow> state" where
  "console_error s msg = s\<lparr>console := console s @ [msg]\<rparr>"

text \<open>
  \<open>JSON.stringify(Object.fromEntries(this.userTokens))\<close> and the same of
  \<open>this.tokenMetadata\<close>: the documents \<open>saveToStorage\<close> writes.
\<close>

definition userTokens_json :: "state \<Rightarrow> jsval" where
  "userTokens_json s = JObj (\<lambda>k. map_option (\<lambda>ts. JArr (map JObj ts)) (userTokens s k))"

definition tokenMetadata_json :: "state \<Rightarrow> jsval" where
  "tokenMetadata_json s = JObj (\<lambda>k. map_option JObj (tokenMetadata s k))"

text \<open>\<open>saveToStorage\<close>: three writes inside one \<open>try\<close>; the \<open>catch\<close> logs and returns.\<close>

definition saveToStorage :: "state \<Rightarrow> state" where
  "saveToStorage s =
     (case setItem s USER_TOKENS (userTokens_json s) of
        Inl e \<Rightarrow> console_error s ''Error saving token data to storage:''
      | Inr s1 \<Rightarrow>
          (case setItem s1 TOKEN_METADATA (tokenMetadata_json s1) of
             Inl e \<Rightarrow> console_error s1 ''Error saving token data to storage:''
           | Inr s2 \<Rightarrow>
               (case Date_now s2 of
                  (t, s3) \<Rightarrow>
                    (case setItem s3 LAST_SYNC (JNum t) of
                       Inl e \<Rightarrow> console_error s3 ''Error saving token data to storage:''
                     | Inr s4 \<Rightarrow> s4))))"

text \<open>The callback of \<open>findIndex\<close> in \<open>addUserToken\<close>:
  \<open>t.address.toLowerCase() === token.address.toLowerCase()\<close>.\<close>

definition same_address :: "obj \<Rightarrow> obj \<Rightarrow> js_error + bool" where
  "same_address token t =
     (case call_toLowerCase (t ''address'') of
        Inl e \<Rightarrow> Inl e
      | Inr a \<Rightarrow>
          (case call_toLowerCase (token ''address'') of
             Inl e \<Rightarrow> Inl e
           | Inr b \<Rightarrow> Inr (a = b)))"

text \<open>\<open>this.userTokens.get(normalizedAddress) || []\<close>\<close>

definition stored :: "state \<Rightarrow> string \<Rightarrow> obj list" where
  "stored s normalizedAddress =
     (case userTokens s normalizedAddress of None \<Rightarrow> [] | Some ts \<Rightarrow> ts)"

text \<open>\<open>addUserToken\<close>; the spread \<open>{...existing, ...token}\<close> is \<open>existing ++ token\<close>.\<close>

definition addUserToken :: "state \<Rightarrow> string \<Rightarrow> obj \<Rightarrow> js_error + state" where
  "addUserToken s userAddress token =
     (let normalizedAddress = toLowerCase userAddress;
          ts = stored s normalizedAddress
      in case findIndex (same_address token) ts of
           Inl e \<Rightarrow> Inl e
         | Inr existingIndex \<Rightarrow>
             (let ts' = (case existingIndex of
                           Some i \<Rightarrow> ts[i := (ts ! i) ++ token]
                         | None \<Rightarrow> ts @ [token])
              in Inr (saveToStorage (s\<lparr>userTokens := (userTokens s)(normalizedAddress \<mapsto> ts')\<rparr>))))"

text \<open>\<open>getUserTokens\<close>: each stored record with the metadata of its address merged in.\<close>

definition with_metadata :: "state \<Rightarrow> obj \<Rightarrow> js_error + obj" where
  "with_metadata s token =
     (case call_toLowerCase (token ''address'') of
        Inl e \<Rightarrow> Inl e
      | Inr a \<Rightarrow> Inr (token(''metadata'' := map_option JObj (tokenMetadata s a))))"

definition getUserTokens :: "state \<Rightarrow> string \<Rightarrow> js_error + obj list" where
  "getUserTokens s userAddress =
     array_map (with_metadata s) (stored s (toLowerCase userAddress))"

text \<open>\<open>updateTokenMetadata\<close>:
  \<open>{...existing, ...metadata, lastUpdated: Date.now()}\<close> under the lower-cased address.\<close>

definition updateTokenMetadata :: "state \<Rightarrow> string \<Rightarrow> obj \<Rightarrow> state" where
  "updateTokenMetadata s tokenAddress metadata =
     (let normalizedAddress = toLowerCase tokenAddress;
          existing = (case tokenMetadata s normalizedAddress of
                        None \<Rightarrow> [''lastUpdated'' \<mapsto> JNum 0]
                      | Some m \<Rightarrow> m)
      in case Date_now s of
           (t, s1) \<Rightarrow>
             saveToStorage
               (s1\<lparr>tokenMetadata :=
                     (tokenMetadata s1)
                       (normalizedAddress \<mapsto> (existing ++ metadata)(''lastUpdated'' \<mapsto> JNum t))\<rparr>))"

text \<open>\<open>removeUserToken\<close>: the filter keeps the records whose lower-cased address differs.\<close>

definition other_address :: "string \<Rightarrow> obj \<Rightarrow> js_error + bool" where
  "other_address normalizedTokenAddress token =
     (case call_toLowerCase (token ''address'') of
        Inl e \<Rightarrow> Inl e
      | Inr a \<Rightarrow> Inr (a \<noteq> normalizedTokenAddress))"

definition removeUserToken :: "state \<Rightarrow> string \<Rightarrow> string \<Rightarrow> js_error + state" where
  "removeUserToken s userAddress tokenAddress =
     (let normalizedUserAddress = toLowerCase userAddress;
          normalizedTokenAddress = toLowerCase tokenAddress;
          ts = stored s normalizedUserAddress
      in case array_filter (other_address normalizedTokenAddress) ts of
           Inl e \<Rightarrow> Inl e
         | Inr filteredTokens \<Rightarrow>
             Inr (saveToStorage
                    (s\<lparr>userTokens := (userTokens s)(normalizedUserAddress \<mapsto> filteredTokens)\<rparr>)))"

text \<open>\<open>getStorageStats().totalUsers\<close> is \<open>this.userTokens.size\<close>.\<close>

definition totalUsers :: "state \<Rightarrow> nat" where
  "totalUsers s = card (dom (userTokens s))"

text \<open>The item that \<open>getStorageStats().lastSync\<close> reads.\<close>

definition lastSync :: "state \<Rightarrow> jsval option" where
  "lastSync s = localStorage s LAST_SYNC"

text \<open>
  \<open>toLowerCase()\<close> as \<open>searchTokens\<close> calls it, on the query and on the name, the
  symbol and the address of a record. \<open>lowerCase\<close> is the case mapping of the runtime, a
  parameter; the empty string is its own lower case whatever the mapping, and the call
  is a \<open>TypeError\<close> on a value that is not a string.
\<close>

definition String_toLowerCase :: "(string \<Rightarrow> string) \<Rightarrow> string \<Rightarrow> string" where
  "String_toLowerCase lowerCase s = (if s = [] then [] else lowerCase s)"

fun call_String_toLowerCase :: "(string \<Rightarrow> string) \<Rightarrow> jsval option \<Rightarrow> js_error + string" where
  "call_String_toLowerCase lowerCase (Some (JStr s)) = Inr (String_toLowerCase lowerCase s)"
| "call_String_toLowerCase lowerCase _ = Inl TypeError"

text \<open>\<open>searchTokens\<close>; \<open>||\<close> evaluates its right operand only when the left one is false.\<close>

definition matches_query :: "(string \<Rightarrow> string) \<Rightarrow> string \<Rightarrow> obj \<Rightarrow> js_error + bool" where
  "matches_query lowerCase lowerQuery token =
     (case call_String_toLowerCase lowerCase (token ''name'') of
        Inl e \<Rightarrow> Inl e
      | Inr n \<Rightarrow>
          if str_includes n lowerQuery then Inr True
          else (case call_String_toLowerCase lowerCase (token ''symbol'') of
                  Inl e \<Rightarrow> Inl e
                | Inr sy \<Rightarrow>
                    if str_includes sy lowerQuery then Inr True
                    else (case call_String_toLowerCase lowerCase (token ''address'') of
                            Inl e \<Rightarrow> Inl e
                          | Inr a \<Rightarrow> Inr (str_includes a lowerQuery))))"

definition searchTokens ::
  "(string \<Rightarrow> string) \<Rightarrow> state \<Rightarrow> string \<Rightarrow> string \<Rightarrow> js_error + obj list" where
  "searchTokens lowerCase s userAddress query =
     (case getUserTokens s userAddress of
        Inl e \<Rightarrow> Inl e
      | Inr tokens \<Rightarrow>
          array_filter (matches_query lowerCase (String_toLowerCase lowerCase query)) tokens)"

section \<open>Export and import\<close>

text \<open>
  \<open>JSON.stringify\<close> and \<open>JSON.parse\<close> belong to the runtime. A text is represented by the
  value it denotes, \<open>Malformed\<close> standing for every text that \<open>JSON.parse\<close> rejects; so
  parsing what \<open>JSON.stringify\<close> wrote gives the value back. This is \<open>JSON.stringify\<close>
  on the JSON values; the export is studied for records that pass \<open>isValidToken\<close>, whose
  \<open>decimals\<close>, the one field where a bigint comes into the registry, is a number.
\<close>

datatype json_text = Malformed | Text jsval

definition JSON_stringify :: "jsval \<Rightarrow> json_text" where
  "JSON_stringify v = Text v"

fun JSON_parse :: "json_text \<Rightarrow> js_error + jsval" where
  "JSON_parse Malformed = Inl SyntaxError"
| "JSON_parse (Text v) = Inr v"

text \<open>
  Reading a property of a parsed value: \<open>null\<close> throws, an object gives its properties,
  and a primitive or an array has none of the properties this program reads.
\<close>

fun props :: "jsval \<Rightarrow> js_error + obj" where
  "props JNull = Inl TypeError"
| "props (JObj f) = Inr f"
| "props _ = Inr Map.empty"

fun truthy :: "jsval option \<Rightarrow> bool" where
  "truthy None = False"
| "truthy (Some JNull) = False"
| "truthy (Some (JBool b)) = b"
| "truthy (Some (JNum n)) = (n \<noteq> 0)"
| "truthy (Some (JBigInt n)) = (n \<noteq> 0)"
| "truthy (Some (JStr s)) = (s \<noteq> [])"
| "truthy (Some (JArr xs)) = True"
| "truthy (Some (JObj f)) = True"

fun isArray :: "jsval option \<Rightarrow> bool" where
  "isArray (Some (JArr xs)) = True"
| "isArray _ = False"

fun elements :: "jsval option \<Rightarrow> jsval list" where
  "elements (Some (JArr xs)) = xs"
| "elements _ = []"

text \<open>
  \<open>exportUserData\<close>. \<open>new Date()\<close> takes a reading of the clock; \<open>toISOString\<close> is the
  runtime's formatting of it.
\<close>

definition exportUserData ::
  "(int \<Rightarrow> string) \<Rightarrow> state \<Rightarrow> string \<Rightarrow> js_error + json_text \<times> state" where
  "exportUserData toISOString s userAddress =
     (case getUserTokens s userAddress of
        Inl e \<Rightarrow> Inl e
      | Inr tokens \<Rightarrow>
          (case Date_now s of
             (t, s1) \<Rightarrow>
               Inr (JSON_stringify
                      (JObj [''userAddress'' \<mapsto> JStr userAddress,
                             ''tokens'' \<mapsto> JArr (map JObj tokens),
                             ''exportedAt'' \<mapsto> JStr (toISOString t),
                             ''version'' \<mapsto> JStr ''1.0'']),
                    s1)))"

text \<open>
  \<open>isValidToken\<close> on the properties of the candidate; \<open>ethers.isAddress\<close> is a parameter
  (it is false on everything that is not a string).
\<close>

fun call_isAddress :: "(string \<Rightarrow> bool) \<Rightarrow> jsval option \<Rightarrow> bool" where
  "call_isAddress isAddress (Some (JStr s)) = isAddress s"
| "call_isAddress isAddress _ = False"

definition isValidToken :: "(string \<Rightarrow> bool) \<Rightarrow> obj \<Rightarrow> bool" where
  "isValidToken isAddress token =
     (is_string (token ''address'') \<and>
      is_string (token ''name'') \<and>
      is_string (token ''symbol'') \<and>
      is_string (token ''creator'') \<and>
      is_number (token ''decimals'') \<and>
      is_number (token ''createdAt'') \<and>
      call_isAddress isAddress (token ''address'') \<and>
      call_isAddress isAddress (token ''creator''))"

text \<open>
  The loop of \<open>importUserData\<close>. An exception leaves the loop with the state reached so
  far: the records added before it stay.
\<close>

fun import_tokens ::
  "(string \<Rightarrow> bool) \<Rightarrow> state \<Rightarrow> string \<Rightarrow> jsval list \<Rightarrow> js_error option \<times> state" where
  "import_tokens isAddress s userAddress [] = (None, s)"
| "import_tokens isAddress s userAddress (token # rest) =
     (case props token of
        Inl e \<Rightarrow> (Some e, s)
      | Inr t \<Rightarrow>
          if isValidToken isAddress t then
            (case addUserToken s userAddress t of
               Inl e \<Rightarrow> (Some e, s)
             | Inr s' \<Rightarrow> import_tokens isAddress s' userAddress rest)
          else import_tokens isAddress s userAddress rest)"

definition importUserData ::
  "(string \<Rightarrow> bool) \<Rightarrow> state \<Rightarrow> string \<Rightarrow> json_text \<Rightarrow> bool \<times> state" where
  "importUserData isAddress s userAddress data =
     (case JSON_parse data of
        Inl e \<Rightarrow> (False, console_error s ''Error importing user data:'')
      | Inr parsed \<Rightarrow>
          (case props parsed of
             Inl e \<Rightarrow> (False, console_error s ''Error importing user data:'')
           | Inr p \<Rightarrow>
               if \<not> truthy (p ''tokens'') \<or> \<not> isArray (p ''tokens'') then
                 (False, console_error s ''Error importing user data:'')
               else
                 (case import_tokens isAddress s userAddress (elements (p ''tokens'')) of
                    (Some e, s') \<Rightarrow> (False, console_error s' ''Error importing user data:'')
                  | (None, s') \<Rightarrow> (True, s'))))"

section \<open>Synchronisation with the factory contract\<close>

text \<open>
  One element of what \<open>getTokensByCreator\<close> returns. \<open>ContractUtils\<close> hands on what
  the contract call gives, a tuple of the factory's ABI
  \<open>(address tokenAddress, string name, string symbol, uint256 initialSupply,
  uint256 maxSupply, uint8 decimals, address creator, uint256 createdAt)\<close>, as ethers
  decodes it: addresses and strings are strings, and every integer, the \<open>uint8\<close> too,
  is a bigint. The two supplies are read with \<open>?.\<close> in the source, so they may be
  missing.
\<close>

record FactoryToken =
  tokenAddress :: string
  name :: string
  symbol :: string
  initialSupply :: "int option"
  maxSupply :: "int option"
  decimals :: int
  creator :: string
  createdAt :: int

text \<open>\<open>BigInt.prototype.toString()\<close>: the decimal digits, after a minus sign if negative.\<close>

fun digits :: "nat \<Rightarrow> string" where
  "digits n =
     (if n < 10 then [''0123456789'' ! n]
      else digits (n div 10) @ [''0123456789'' ! (n mod 10)])"

declare digits.simps [simp del]

definition bigint_toString :: "int \<Rightarrow> string" where
  "bigint_toString n = (if n < 0 then CHR ''-'' # digits (nat (- n)) else digits (nat n))"

text \<open>\<open>x?.toString() || '0'\<close>\<close>

definition supply_string :: "int option \<Rightarrow> string" where
  "supply_string x =
     (case x of
        None \<Rightarrow> ''0''
      | Some n \<Rightarrow> (let str = bigint_toString n in if str = [] then ''0'' else str))"

text \<open>
  A number of JavaScript is a double, with a significand of 53 bits; \<open>JNum\<close> holds the
  doubles that are integers. \<open>Number(x)\<close> of a bigint and the product of two numbers
  are the exact result rounded to the nearest double, to the one with the even
  significand when two are equally near. For an integer of more than 53 bits that means
  rounding away its low bits; an integer of at most 53 bits is a double itself. The
  exponent of a double is left unbounded here: it overflows from \<open>2 ^ 1024\<close> on, and the
  integers of the ABI are below \<open>2 ^ 256\<close>.
\<close>

function bit_length :: "int \<Rightarrow> nat" where
  "bit_length n = (if n \<le> 0 then 0 else Suc (bit_length (n div 2)))"
  by auto
termination by (relation "measure nat") auto

declare bit_length.simps [simp del]

definition nearest_double :: "int \<Rightarrow> int" where
  "nearest_double x =
     (let a = \<bar>x\<bar>;
          e = bit_length a - 53;
          q = a div 2 ^ e;
          r = a mod 2 ^ e;
          up = (2 ^ e < 2 * r \<or> (2 * r = 2 ^ e \<and> odd q))
      in sgn x * ((if up then q + 1 else q) * 2 ^ e))"

text \<open>\<open>Number(x)\<close> for a bigint \<open>x\<close>, and \<open>a * b\<close> for two numbers that are integers.\<close>

definition Number_of_bigint :: "int \<Rightarrow> int" where
  "Number_of_bigint x = nearest_double x"

definition times_number :: "int \<Rightarrow> int \<Rightarrow> int" where
  "times_number a b = nearest_double (a * b)"

text \<open>
  The object literal of the loop, one property for each field of \<open>UserToken\<close>.
  \<open>decimals\<close> is handed on as it comes, a bigint, although the \<open>UserToken\<close> type
  declares a number. \<open>JSON.stringify\<close> throws on a bigint; where \<open>saveToStorage\<close> meets
  one, that happens inside its \<open>try\<close> and before the first \<open>setItem\<close>, so that the
  record stays in memory and the failure is logged: the behaviour of a store that refuses
  the first write.
\<close>

definition userToken_of :: "int \<Rightarrow> FactoryToken \<Rightarrow> obj" where
  "userToken_of chainId factoryToken =
     [''address'' \<mapsto> JStr (tokenAddress factoryToken),
      ''name'' \<mapsto> JStr (name factoryToken),
      ''symbol'' \<mapsto> JStr (symbol factoryToken),
      ''initialSupply'' \<mapsto> JStr (supply_string (initialSupply factoryToken)),
      ''maxSupply'' \<mapsto> JStr (supply_string (maxSupply factoryToken)),
      ''decimals'' \<mapsto> JBigInt (decimals factoryToken),
      ''creator'' \<mapsto> JStr (creator factoryToken),
      ''createdAt'' \<mapsto> JNum (times_number (Number_of_bigint (createdAt factoryToken)) 1000),
      ''transactionHash'' \<mapsto> JStr [],
      ''network'' \<mapsto> JStr ''Edgen Chain'',
      ''chainId'' \<mapsto> JNum chainId]"

text \<open>
  The loop of \<open>syncWithBlockchain\<close> and the function around it. \<open>signer\<close> tells whether a
  signer is there; \<open>response\<close> is what the awaited \<open>getTokensByCreator\<close> gives, a list or a
  rejection. The result is the exception that \<open>setError\<close> reports, if any, and the state.
  What the hook does to its React state (\<open>setIsLoading\<close>, \<open>loadTokens\<close>) does not touch
  the registry and is left out.
\<close>

fun add_tokens :: "state \<Rightarrow> string \<Rightarrow> obj list \<Rightarrow> js_error option \<times> state" where
  "add_tokens s userAddress [] = (None, s)"
| "add_tokens s userAddress (userToken # rest) =
     (case addUserToken s userAddress userToken of
        Inl e \<Rightarrow> (Some e, s)
      | Inr s' \<Rightarrow> add_tokens s' userAddress rest)"

definition syncWithBlockchain ::
  "state \<Rightarrow> bool \<Rightarrow> string \<Rightarrow> int \<Rightarrow> js_error + FactoryToken list \<Rightarrow> js_error option \<times> state" where
  "syncWithBlockchain s signer userAddress chainId response =
     (if \<not> signer \<or> userAddress = [] then (None, s)
      else (case response of
              Inl e \<Rightarrow> (Some e, s)
            | Inr factoryTokens \<Rightarrow>
                add_tokens s userAddress (map (userToken_of chainId) factoryTokens)))"

section \<open>The wallet session\<close>

text \<open>
  The state of the \<open>WalletConnect\<close> component, with the calls it has made of its two
  callbacks, and what the wallet bridge (\<open>window.ethereum\<close> behind an
  \<open>ethers.BrowserProvider\<close>) answers to the requests of \<open>checkConnection\<close>: each answer
  is a value or a rejection. \<open>ethers.formatEther\<close> is a parameter.
\<close>

datatype network_status = Correct | Wrong | Unknown

datatype callback = WalletConnected string | WalletDisconnected

record wallet =
  isConnected :: bool
  address :: string
  isConnecting :: bool
  error :: string
  networkStatus :: network_status
  balance :: string
  called :: "callback list"

record ethereum =
  eth_accounts :: "js_error + string list"
  getSigner :: "js_error + string"
  getNetwork :: "js_error + int"
  getBalance :: "string \<Rightarrow> js_error + int"

text \<open>
  \<open>checkConnection\<close>. Its awaits are taken in sequence, with no other event in between;
  any rejection goes to the \<open>catch\<close>, which keeps what was set before and sets the network
  status to unknown.
\<close>

definition checkConnection :: "(int \<Rightarrow> string) \<Rightarrow> ethereum option \<Rightarrow> wallet \<Rightarrow> wallet" where
  "checkConnection formatEther window_ethereum w =
     (case window_ethereum of
        None \<Rightarrow> w
      | Some eth \<Rightarrow>
          (case eth_accounts eth of
             Inl e \<Rightarrow> w\<lparr>networkStatus := Unknown\<rparr>
           | Inr accounts \<Rightarrow>
               if length accounts > 0 then
                 (case getSigner eth of
                    Inl e \<Rightarrow> w\<lparr>networkStatus := Unknown\<rparr>
                  | Inr signer_address \<Rightarrow>
                      (case getNetwork eth of
                         Inl e \<Rightarrow> w\<lparr>networkStatus := Unknown\<rparr>
                       | Inr chainId \<Rightarrow>
                           (let w1 = w\<lparr>networkStatus := (if chainId = 4207 then Correct else Wrong)\<rparr>
                            in case getBalance eth signer_address of
                                 Inl e \<Rightarrow> w1\<lparr>networkStatus := Unknown\<rparr>
                               | Inr balanceWei \<Rightarrow>
                                   w1\<lparr>balance := formatEther balanceWei,
                                      isConnected := True,
                                      address := signer_address,
                                      called := called w1 @ [WalletConnected signer_address]\<rparr>)))
               else w))"

text \<open>\<open>handleAccountsChanged\<close>; \<open>accounts[0]\<close> is read only when the list is not empty.\<close>

definition handleAccountsChanged ::
  "(int \<Rightarrow> string) \<Rightarrow> ethereum option \<Rightarrow> string list \<Rightarrow> wallet \<Rightarrow> wallet" where
  "handleAccountsChanged formatEther window_ethereum accounts w =
     (if length accounts = 0 then
        w\<lparr>isConnected := False, address := [], balance := ''0'', networkStatus := Unknown,
          called := called w @ [WalletDisconnected]\<rparr>
      else checkConnection formatEther window_ethereum (w\<lparr>address := hd accounts\<rparr>))"

section \<open>Notions the properties are stated with\<close>

subsection \<open>Records and lists\<close>

text \<open>
  The lower-cased address of a record is the key of every comparison in the registry.
  A list is well formed when its records carry a string address: every record that
  \<open>addUserToken\<close> receives from the typed callers or from \<open>importUserData\<close> does, and no
  callback of the registry throws on such a list. A list has no duplicates when no two of
  its records have the same lower-cased address.
\<close>

fun lower_of :: "jsval option \<Rightarrow> string" where
  "lower_of (Some (JStr s)) = toLowerCase s"
| "lower_of _ = []"

definition laddr :: "obj \<Rightarrow> string" where
  "laddr t = lower_of (t ''address'')"

definition well_formed :: "obj list \<Rightarrow> bool" where
  "well_formed ts = (\<forall>t\<in>set ts. is_string (t ''address''))"

definition no_duplicates :: "obj list \<Rightarrow> bool" where
  "no_duplicates ts = distinct (map laddr ts)"

text \<open>
  The index \<open>findIndex\<close> returns when its callback does not throw, the list
  \<open>addUserToken\<close> leaves for the owner, and the list after it has been called for each
  record of a list in turn.
\<close>

fun first_index :: "('a \<Rightarrow> bool) \<Rightarrow> 'a list \<Rightarrow> nat option" where
  "first_index p [] = None"
| "first_index p (x # xs) =
     (if p x then Some 0 else map_option Suc (first_index p xs))"

definition add_record :: "obj list \<Rightarrow> obj \<Rightarrow> obj list" where
  "add_record ts token =
     (case first_index (\<lambda>t. laddr t = laddr token) ts of
        Some i \<Rightarrow> ts[i := (ts ! i) ++ token]
      | None \<Rightarrow> ts @ [token])"

definition add_records :: "obj list \<Rightarrow> obj list \<Rightarrow> obj list" where
  "add_records ts tokens = fold (\<lambda>token acc. add_record acc token) tokens ts"

text \<open>What \<open>getUserTokens\<close> makes of a well-formed record.\<close>

definition view :: "state \<Rightarrow> obj \<Rightarrow> obj" where
  "view s token = token(''metadata'' := map_option JObj (tokenMetadata s (laddr token)))"

subsection \<open>Search\<close>

text \<open>The records \<open>searchTokens\<close> can read: name and symbol are strings.\<close>

definition named :: "obj list \<Rightarrow> bool" where
  "named ts = (\<forall>t\<in>set ts. is_string (t ''name'') \<and> is_string (t ''symbol''))"

fun string_of :: "jsval option \<Rightarrow> string" where
  "string_of (Some (JStr s)) = s"
| "string_of _ = []"

text \<open>
  The specification's words for the search: the field contains the query as a substring
  when case is ignored, that is, with both written in lower case the query is a
  contiguous part of the field. Where lower case is taken code unit by code unit, this
  says that some part of the field equals the query up to case
  (lemma \<open>contains_ignoring_case_unitwise\<close>).
\<close>

definition contains_ignoring_case :: "(string \<Rightarrow> string) \<Rightarrow> string \<Rightarrow> string \<Rightarrow> bool" where
  "contains_ignoring_case lowerCase field query =
     (\<exists>before after.
        String_toLowerCase lowerCase field = before @ String_toLowerCase lowerCase query @ after)"

definition query_hit :: "(string \<Rightarrow> string) \<Rightarrow> string \<Rightarrow> obj \<Rightarrow> bool" where
  "query_hit lowerCase query t =
     (contains_ignoring_case lowerCase (string_of (t ''name'')) query \<or>
      contains_ignoring_case lowerCase (string_of (t ''symbol'')) query \<or>
      contains_ignoring_case lowerCase (string_of (t ''address'')) query)"

subsection \<open>The durable store and the clock\<close>

text \<open>Whether the browser takes the three writes of \<open>saveToStorage\<close> in the state \<open>s\<close>.\<close>

definition save_accepted :: "state \<Rightarrow> bool" where
  "save_accepted s =
     (accepts s USER_TOKENS (userTokens_json s) \<and>
      accepts s TOKEN_METADATA (tokenMetadata_json s) \<and>
      accepts s LAST_SYNC (JNum (shd (clock s))))"

text \<open>
  The \<open>lastUpdated\<close> of a metadata entry, with the baseline 0 of \<open>updateTokenMetadata\<close>
  for an address without an entry.
\<close>

fun number_of :: "jsval option \<Rightarrow> int" where
  "number_of (Some (JNum n)) = n"
| "number_of _ = 0"

definition lastUpdated_of :: "obj option \<Rightarrow> int" where
  "lastUpdated_of entry =
     (case entry of None \<Rightarrow> 0 | Some m \<Rightarrow> number_of (m ''lastUpdated''))"

text \<open>
  The clock of the browser does not run backwards, and no stored stamp lies after its
  next reading (so the next reading is not before 1970 either). Both hold on the empty
  registry whenever the clock is non-decreasing from a non-negative reading, and the
  operations of the registry keep them.
\<close>

definition clock_advances :: "state \<Rightarrow> bool" where
  "clock_advances s = (\<forall>i. clock s !! i \<le> clock s !! Suc i)"

definition stamps_past :: "state \<Rightarrow> bool" where
  "stamps_past s = (\<forall>a. lastUpdated_of (tokenMetadata s a) \<le> shd (clock s))"

subsection \<open>Payloads\<close>

text \<open>
  The properties of an array element as \<open>isValidToken\<close> reads them, and the records of a
  payload that pass \<open>isValidToken\<close>, in their order.
\<close>

fun properties :: "jsval \<Rightarrow> obj" where
  "properties (JObj f) = f"
| "properties _ = Map.empty"

definition valid_records :: "(string \<Rightarrow> bool) \<Rightarrow> jsval list \<Rightarrow> obj list" where
  "valid_records isAddress entries = filter (isValidToken isAddress) (map properties entries)"

subsection \<open>Decimal strings\<close>

text \<open>Decimal strings, with an optional minus sign, and the integers they denote.\<close>

definition digit_value :: "char \<Rightarrow> nat" where
  "digit_value c =
     (case map_of (zip ''0123456789'' [0, 1, 2, 3, 4, 5, 6, 7, 8, 9]) c of
        Some d \<Rightarrow> d
      | None \<Rightarrow> 0)"

definition digits_value :: "string \<Rightarrow> nat" where
  "digits_value ds = foldl (\<lambda>acc c. 10 * acc + digit_value c) 0 ds"

definition is_digit :: "char \<Rightarrow> bool" where
  "is_digit c = (c \<in> set ''0123456789'')"

definition only_digits :: "string \<Rightarrow> bool" where
  "only_digits ds = (ds \<noteq> [] \<and> list_all is_digit ds)"

fun is_decimal :: "string \<Rightarrow> bool" where
  "is_decimal [] = False"
| "is_decimal (c # cs) = (if c = CHR ''-'' then only_digits cs else only_digits (c # cs))"

fun decimal_value :: "string \<Rightarrow> int" where
  "decimal_value [] = 0"
| "decimal_value (c # cs) =
     (if c = CHR ''-'' then - int (digits_value cs) else int (digits_value (c # cs)))"

subsection \<open>Synchronised records\<close>

text \<open>
  The specification's words for the record that a result of the factory becomes: the
  fields of the result; the supplies as decimal strings that denote them, or zero for a
  missing one; the creation time converted from seconds to milliseconds, which is the
  seconds times 1000 wherever that product is a double below \<open>2 ^ 53\<close> or \<open>2 ^ 53\<close>
  itself, and \<open>Number(createdAt) * 1000\<close> in double arithmetic in general; no transaction
  hash; the name of the network and the chain id of the session.
\<close>

definition synced_record :: "int \<Rightarrow> FactoryToken \<Rightarrow> obj \<Rightarrow> bool" where
  "synced_record chainId factoryToken entry =
     (entry ''address'' = Some (JStr (tokenAddress factoryToken)) \<and>
      entry ''name'' = Some (JStr (name factoryToken)) \<and>
      entry ''symbol'' = Some (JStr (symbol factoryToken)) \<and>
      (\<exists>str. entry ''initialSupply'' = Some (JStr str) \<and> is_decimal str \<and>
             decimal_value str = (case initialSupply factoryToken of None \<Rightarrow> 0 | Some n \<Rightarrow> n)) \<and>
      (\<exists>str. entry ''maxSupply'' = Some (JStr str) \<and> is_decimal str \<and>
             decimal_value str = (case maxSupply factoryToken of None \<Rightarrow> 0 | Some n \<Rightarrow> n)) \<and>
      entry ''decimals'' = Some (JBigInt (decimals factoryToken)) \<and>
      entry ''creator'' = Some (JStr (creator factoryToken)) \<and>
      entry ''createdAt'' =
        Some (JNum (times_number (Number_of_bigint (createdAt factoryToken)) 1000)) \<and>
      (0 \<le> createdAt factoryToken \<and> createdAt factoryToken * 1000 \<le> 2 ^ 53 \<longrightarrow>
         entry ''createdAt'' = Some (JNum (createdAt factoryToken * 1000))) \<and>
      entry ''transactionHash'' = Some (JStr []) \<and>
      entry ''network'' = Some (JStr ''Edgen Chain'') \<and>
      entry ''chainId'' = Some (JNum chainId))"

subsection \<open>The states the registry reaches\<close>

text \<open>
  What the \<open>UserToken\<close> type gives the registry about a record that a typed caller adds,
  and \<open>isValidToken\<close> about an imported one: address, name and symbol are strings.
\<close>

definition admissible :: "obj \<Rightarrow> bool" where
  "admissible token =
     (is_string (token ''address'') \<and> is_string (token ''name'') \<and> is_string (token ''symbol''))"

text \<open>The invariant of the registry: every list is well formed, named and without duplicates.\<close>

definition registry_invariant :: "state \<Rightarrow> bool" where
  "registry_invariant s =
     (\<forall>k. well_formed (stored s k) \<and> named (stored s k) \<and> no_duplicates (stored s k))"

definition timely :: "state \<Rightarrow> bool" where
  "timely s = (clock_advances s \<and> stamps_past s)"

text \<open>The states that calls of the public operations lead to from a state \<open>s0\<close>.\<close>

inductive reaches :: "state \<Rightarrow> state \<Rightarrow> bool" for s0 :: state where
  start: "reaches s0 s0"
| add: "reaches s0 s \<Longrightarrow> admissible token \<Longrightarrow> addUserToken s owner token = Inr s' \<Longrightarrow>
        reaches s0 s'"
| update: "reaches s0 s \<Longrightarrow> reaches s0 (updateTokenMetadata s tokenAddr metadata)"
| remove: "reaches s0 s \<Longrightarrow> removeUserToken s owner tokenAddr = Inr s' \<Longrightarrow> reaches s0 s'"
| import: "reaches s0 s \<Longrightarrow> importUserData isAddress s owner data = (ok, s') \<Longrightarrow> reaches s0 s'"
| export: "reaches s0 s \<Longrightarrow> exportUserData toISOString s owner = Inr (document, s') \<Longrightarrow>
           reaches s0 s'"
| sync: "reaches s0 s \<Longrightarrow>
         syncWithBlockchain s signer owner chainId response = (failure, s') \<Longrightarrow> reaches s0 s'"

section \<open>Examples\<close>

text \<open>
  The registry of a first visit (nothing stored, a store that takes every write, a clock
  that ticks), an owner and a token as in the scenario of the specification, and the
  registry after that token has been added. The addresses of the examples are written in
  one case: \<open>ethers.isAddress\<close> accepts such an address without a checksum test.
\<close>

definition empty_registry :: state where
  "empty_registry =
     \<lparr>userTokens = Map.empty, tokenMetadata = Map.empty, localStorage = Map.empty,
      accepts = (\<lambda>k v. True), console = [], clock = siterate (\<lambda>t. t + 1) 1700000000000\<rparr>"

definition owner_A :: string where
  "owner_A = ''0x52908400098527886E0F7030069857D2E4169EE7''"

definition test_token :: obj where
  "test_token =
     [''address'' \<mapsto> JStr ''0xde709f2102306220921060314715629080e2fb77'',
      ''name'' \<mapsto> JStr ''Test'',
      ''symbol'' \<mapsto> JStr ''TST'',
      ''initialSupply'' \<mapsto> JStr ''1000'',
      ''maxSupply'' \<mapsto> JStr ''10000'',
      ''decimals'' \<mapsto> JNum 18,
      ''creator'' \<mapsto> JStr ''0x52908400098527886E0F7030069857D2E4169EE7'',
      ''createdAt'' \<mapsto> JNum 1700000000000,
      ''transactionHash'' \<mapsto> JStr ''0x01'',
      ''network'' \<mapsto> JStr ''Edgen Chain'',
      ''chainId'' \<mapsto> JNum 4207]"

definition one_token_registry :: state where
  "one_token_registry =
     empty_registry\<lparr>userTokens := [toLowerCase owner_A \<mapsto> [test_token]]\<rparr>"

text \<open>
  The case mapping of the runtime on the strings whose code units are below 256
  (Latin-1): the letters \<open>A\<close>..\<open>Z\<close> and those from U+00C0 to U+00DE, the multiplication
  sign U+00D7 apart, go to the code unit 32 above, and every other code unit stays. A
  token whose name begins with U+00C9, the capital E with an acute accent, and the
  registry of the owner with both tokens.
\<close>

definition latin1_lower_char :: "char \<Rightarrow> char" where
  "latin1_lower_char c =
     (case map_of
        (zip (''ABCDEFGHIJKLMNOPQRSTUVWXYZ'' @
              [CHR 0xC0, CHR 0xC1, CHR 0xC2, CHR 0xC3, CHR 0xC4, CHR 0xC5, CHR 0xC6, CHR 0xC7,
               CHR 0xC8, CHR 0xC9, CHR 0xCA, CHR 0xCB, CHR 0xCC, CHR 0xCD, CHR 0xCE, CHR 0xCF,
               CHR 0xD0, CHR 0xD1, CHR 0xD2, CHR 0xD3, CHR 0xD4, CHR 0xD5, CHR 0xD6,
               CHR 0xD8, CHR 0xD9, CHR 0xDA, CHR 0xDB, CHR 0xDC, CHR 0xDD, CHR 0xDE])
             (''abcdefghijklmnopqrstuvwxyz'' @
              [CHR 0xE0, CHR 0xE1, CHR 0xE2, CHR 0xE3, CHR 0xE4, CHR 0xE5, CHR 0xE6, CHR 0xE7,
               CHR 0xE8, CHR 0xE9, CHR 0xEA, CHR 0xEB, CHR 0xEC, CHR 0xED, CHR 0xEE, CHR 0xEF,
               CHR 0xF0, CHR 0xF1, CHR 0xF2, CHR 0xF3, CHR 0xF4, CHR 0xF5, CHR 0xF6,
               CHR 0xF8, CHR 0xF9, CHR 0xFA, CHR 0xFB, CHR 0xFC, CHR 0xFD, CHR 0xFE])) c of
        Some d \<Rightarrow> d
      | None \<Rightarrow> c)"

definition latin1_lower :: "string \<Rightarrow> string" where
  "latin1_lower s = map latin1_lower_char s"

definition ecu_token :: obj where
  "ecu_token =
     [''address'' \<mapsto> JStr ''0x5aaeb6053f3e94c9b9a09f33669435e7ef1beaed'',
      ''name'' \<mapsto> JStr [CHR 0xC9, CHR ''C'', CHR ''U''],
      ''symbol'' \<mapsto> JStr ''XEU'',
      ''initialSupply'' \<mapsto> JStr ''500'',
      ''maxSupply'' \<mapsto> JStr ''500'',
      ''decimals'' \<mapsto> JNum 2,
      ''creator'' \<mapsto> JStr ''0x52908400098527886E0F7030069857D2E4169EE7'',
      ''createdAt'' \<mapsto> JNum 1700000100000,
      ''transactionHash'' \<mapsto> JStr ''0x02'',
      ''network'' \<mapsto> JStr ''Edgen Chain'',
      ''chainId'' \<mapsto> JNum 4207]"

definition two_token_registry :: state where
  "two_token_registry =
     empty_registry\<lparr>userTokens := [toLowerCase owner_A \<mapsto> [test_token, ecu_token]]\<rparr>"

text \<open>The same address in another case, under another name.\<close>

definition renamed_token :: obj where
  "renamed_token =
     [''address'' \<mapsto> JStr ''0xDE709F2102306220921060314715629080E2FB77'',
      ''name'' \<mapsto> JStr ''Renamed'']"

text \<open>A browser whose storage is disabled: every \<open>setItem\<close> throws.\<close>

definition storage_disabled :: state where
  "storage_disabled = one_token_registry\<lparr>accepts := (\<lambda>k v. False)\<rparr>"

text \<open>Two partial metadata updates.\<close>

definition tagged :: obj where
  "tagged = [''tags'' \<mapsto> JArr [JStr ''defi'', JStr ''test'']]"

definition described :: obj where
  "described = [''description'' \<mapsto> JStr ''A test token'']"

text \<open>
  A stand-in for \<open>ethers.isAddress\<close> in the examples: \<open>0x\<close> and forty hexadecimal
  digits in one case. \<open>ethers.isAddress\<close> accepts these, and with them the mixed-case
  addresses whose checksum is right, which the examples do not use. Then a record whose
  creator is no address, an import payload, and a second owner.
\<close>

definition hex_address :: "string \<Rightarrow> bool" where
  "hex_address s =
     (length s = 42 \<and> take 2 s = ''0x'' \<and>
      (list_all (\<lambda>c. c \<in> set ''0123456789abcdef'') (drop 2 s) \<or>
       list_all (\<lambda>c. c \<in> set ''0123456789ABCDEF'') (drop 2 s)))"

definition bad_creator_token :: obj where
  "bad_creator_token =
     [''address'' \<mapsto> JStr ''0x27b1fdb04752bbc536007a920d24acb045561c26'',
      ''name'' \<mapsto> JStr ''Broken'',
      ''symbol'' \<mapsto> JStr ''BRK'',
      ''decimals'' \<mapsto> JNum 18,
      ''creator'' \<mapsto> JStr ''nobody'',
      ''createdAt'' \<mapsto> JNum 1700000000000]"

definition payload :: json_text where
  "payload =
     Text (JObj [''version'' \<mapsto> JStr ''1.0'',
                 ''tokens'' \<mapsto> JArr [JObj bad_creator_token, JObj test_token, JNum 7]])"

text \<open>A payload with \<open>null\<close> between two valid records.\<close>

definition null_payload :: json_text where
  "null_payload =
     Text (JObj [''version'' \<mapsto> JStr ''1.0'',
                 ''tokens'' \<mapsto> JArr [JObj test_token, JNull, JObj ecu_token]])"

definition owner_D :: string where
  "owner_D = ''0x8617E340B3D01FA5F11F306F4090FD50E238070D''"

text \<open>
  One result of the factory, and one whose \<open>createdAt\<close> is \<open>2 ^ 53 + 1\<close>, the least
  positive integer that is not a double.
\<close>

definition factory_token :: FactoryToken where
  "factory_token =
     \<lparr>tokenAddress = ''0xde709f2102306220921060314715629080e2fb77'',
      name = ''Test'', symbol = ''TST'',
      initialSupply = Some 1000, maxSupply = Some 10000,
      decimals = 18,
      creator = ''0x52908400098527886E0F7030069857D2E4169EE7'',
      createdAt = 1700000000\<rparr>"

definition far_token :: FactoryToken where
  "far_token =
     \<lparr>tokenAddress = ''0x27b1fdb04752bbc536007a920d24acb045561c26'',
      name = ''Far'', symbol = ''FAR'',
      initialSupply = Some 1, maxSupply = Some 1,
      decimals = 18,
      creator = ''0x52908400098527886E0F7030069857D2E4169EE7'',
      createdAt = 9007199254740993\<rparr>"

text \<open>A connected session, and a wallet that answers for a second account.\<close>

definition connected_wallet :: wallet where
  "connected_wallet =
     \<lparr>isConnected = True, address = ''0x52908400098527886E0F7030069857D2E4169EE7'',
      isConnecting = False, error = [], networkStatus = Correct, balance = ''1.5'', called = []\<rparr>"

definition answering_wallet :: ethereum where
  "answering_wallet =
     \<lparr>eth_accounts = Inr [''0x8617E340B3D01FA5F11F306F4090FD50E238070D''],
      getSigner = Inr ''0x8617E340B3D01FA5F11F306F4090FD50E238070D'',
      getNetwork = Inr 1,
      getBalance = (\<lambda>a. Inr 0)\<rparr>"

section \<open>The list operations when no callback throws\<close>

lemma is_string_cases: "is_string v \<Longrightarrow> \<exists>s. v = Some (JStr s)"
  by (cases v rule: is_string.cases) auto

lemma call_toLowerCase_string: "is_string v \<Longrightarrow> call_toLowerCase v = Inr (lower_of v)"
  by (auto dest: is_string_cases)

lemma same_address_string:
  "is_string (t ''address'') \<Longrightarrow> is_string (token ''address'') \<Longrightarrow>
   same_address token t = Inr (laddr t = laddr token)"
  by (simp add: same_address_def laddr_def call_toLowerCase_string)

lemma findIndex_pure:
  "\<forall>x\<in>set xs. p x = Inr (q x) \<Longrightarrow> findIndex p xs = Inr (first_index q xs)"
  by (induction xs) (auto split: option.splits)

lemma array_map_pure:
  "\<forall>x\<in>set xs. f x = Inr (g x) \<Longrightarrow> array_map f xs = Inr (map g xs)"
  by (induction xs) auto

lemma array_filter_pure:
  "\<forall>x\<in>set xs. p x = Inr (q x) \<Longrightarrow> array_filter p xs = Inr (filter q xs)"
  by (induction xs) auto

lemma first_index_None: "first_index p xs = None \<longleftrightarrow> (\<forall>x\<in>set xs. \<not> p x)"
  by (induction xs) auto

lemma first_index_Some:
  "first_index p xs = Some i \<Longrightarrow> i < length xs \<and> p (xs ! i) \<and> (\<forall>j<i. \<not> p (xs ! j))"
proof (induction xs arbitrary: i)
  case Nil
  then show ?case by simp
next
  case (Cons x xs)
  show ?case
  proof (cases "p x")
    case True
    with Cons.prems show ?thesis by simp
  next
    case False
    with Cons.prems obtain k where k: "first_index p xs = Some k" "i = Suc k"
      by auto
    from Cons.IH[OF k(1)] False k(2) show ?thesis
      by (auto simp: less_Suc_eq_0_disj)
  qed
qed

lemma userTokens_saveToStorage [simp]: "userTokens (saveToStorage s) = userTokens s"
  by (simp add: saveToStorage_def setItem_def console_error_def Date_now_def
           split: sum.splits prod.splits if_splits)

lemma tokenMetadata_saveToStorage [simp]: "tokenMetadata (saveToStorage s) = tokenMetadata s"
  by (simp add: saveToStorage_def setItem_def console_error_def Date_now_def
           split: sum.splits prod.splits if_splits)

lemma stored_saveToStorage [simp]: "stored (saveToStorage s) k = stored s k"
  by (simp add: stored_def)

lemma addUserToken_pure:
  assumes "well_formed (stored s (toLowerCase owner))" and "is_string (token ''address'')"
  shows "addUserToken s owner token =
         Inr (saveToStorage
                (s\<lparr>userTokens := (userTokens s)
                     (toLowerCase owner \<mapsto> add_record (stored s (toLowerCase owner)) token)\<rparr>))"
proof -
  have "findIndex (same_address token) (stored s (toLowerCase owner)) =
        Inr (first_index (\<lambda>t. laddr t = laddr token) (stored s (toLowerCase owner)))"
    using assms by (intro findIndex_pure) (simp add: well_formed_def same_address_string)
  then show ?thesis
    by (simp add: addUserToken_def add_record_def Let_def)
qed

lemma laddr_merge: "is_string (token ''address'') \<Longrightarrow> laddr (t ++ token) = laddr token"
  by (auto simp: laddr_def map_add_def dest: is_string_cases)

lemma map_laddr_add_record:
  assumes "is_string (token ''address'')"
  shows "map laddr (add_record ts token) =
         (if laddr token \<in> laddr ` set ts then map laddr ts else map laddr ts @ [laddr token])"
proof (cases "first_index (\<lambda>t. laddr t = laddr token) ts")
  case None
  then have "laddr token \<notin> laddr ` set ts"
    by (auto simp: first_index_None)
  with None show ?thesis
    by (simp add: add_record_def)
next
  case (Some i)
  from first_index_Some[OF Some] have i: "i < length ts" "laddr (ts ! i) = laddr token"
    by auto
  then have "laddr token \<in> laddr ` set ts"
    by (metis imageI nth_mem)
  moreover have "map laddr (ts[i := (ts ! i) ++ token]) = map laddr ts"
    using i assms by (simp add: map_update laddr_merge list_update_same_conv)
  ultimately show ?thesis
    using Some by (simp add: add_record_def)
qed

lemma distinct_count_le1:
  "distinct (map f xs) \<Longrightarrow> length (filter (\<lambda>x. f x = a) xs) \<le> 1"
  by (induction xs) (auto simp: filter_empty_conv image_iff)

lemma well_formed_add_record:
  "well_formed ts \<Longrightarrow> is_string (token ''address'') \<Longrightarrow> well_formed (add_record ts token)"
  unfolding well_formed_def add_record_def
  by (auto split: option.splits dest!: first_index_Some set_update_subset_insert[THEN subsetD]
           simp: map_add_def dest: is_string_cases)

lemma with_metadata_string:
  "is_string (t ''address'') \<Longrightarrow> with_metadata s t = Inr (view s t)"
  by (simp add: with_metadata_def view_def laddr_def call_toLowerCase_string)

lemma getUserTokens_pure:
  "well_formed (stored s (toLowerCase owner)) \<Longrightarrow>
   getUserTokens s owner = Inr (map (view s) (stored s (toLowerCase owner)))"
  unfolding getUserTokens_def
  by (intro array_map_pure) (simp add: well_formed_def with_metadata_string)

lemma distinct_index_unique:
  assumes "distinct (map f xs)" "i < length xs" "j < length xs" "f (xs ! i) = f (xs ! j)"
  shows "i = j"
proof -
  have "map f xs ! i = map f xs ! j" using assms by simp
  with assms show ?thesis by (metis length_map nth_eq_iff_index_eq)
qed

lemma add_record_present:
  assumes "distinct (map laddr ts)" "i < length ts" "laddr (ts ! i) = laddr token"
  shows "add_record ts token = ts[i := (ts ! i) ++ token]"
proof (cases "first_index (\<lambda>t. laddr t = laddr token) ts")
  case None
  with assms show ?thesis by (auto simp: first_index_None)
next
  case (Some j)
  from first_index_Some[OF Some] have "j < length ts" "laddr (ts ! j) = laddr token" by auto
  with assms have "i = j" by (intro distinct_index_unique[of laddr ts]) auto
  with Some show ?thesis by (simp add: add_record_def)
qed

lemma add_record_absent:
  "\<forall>t\<in>set ts. laddr t \<noteq> laddr token \<Longrightarrow> add_record ts token = ts @ [token]"
proof -
  assume "\<forall>t\<in>set ts. laddr t \<noteq> laddr token"
  then have "first_index (\<lambda>t. laddr t = laddr token) ts = None"
    by (simp add: first_index_None)
  then show ?thesis by (simp add: add_record_def)
qed

lemma no_duplicates_add_record:
  "no_duplicates ts \<Longrightarrow> is_string (token ''address'') \<Longrightarrow> no_duplicates (add_record ts token)"
  by (simp add: no_duplicates_def map_laddr_add_record)

lemma count_add_record:
  assumes "no_duplicates ts" "is_string (token ''address'')"
  shows "length (filter (\<lambda>t. laddr t = laddr token) (add_record ts token)) = 1"
proof -
  have "distinct (map laddr (add_record ts token))"
    using no_duplicates_add_record[of ts token] assms by (simp add: no_duplicates_def)
  then have "length (filter (\<lambda>t. laddr t = laddr token) (add_record ts token)) \<le> 1"
    by (rule distinct_count_le1)
  moreover have "laddr token \<in> set (map laddr (add_record ts token))"
    using assms(2) by (simp add: map_laddr_add_record)
  then have "filter (\<lambda>t. laddr t = laddr token) (add_record ts token) \<noteq> []"
    by (auto simp: filter_empty_conv)
  then have "length (filter (\<lambda>t. laddr t = laddr token) (add_record ts token)) \<noteq> 0"
    by simp
  ultimately show ?thesis by linarith
qed

lemma length_add_record_present:
  "i < length ts \<Longrightarrow> laddr (ts ! i) = laddr token \<Longrightarrow> length (add_record ts token) = length ts"
  by (auto simp: add_record_def first_index_None split: option.splits)

text \<open>
  Claim C1. After \<open>addToken(owner, token)\<close> the owner's list holds exactly one record
  whose address equals \<open>token.address\<close> case-insensitively (and no two records of one
  address, as before the call): a record of that address that was present is updated in
  place by the shallow merge, every field of the token overwriting and every other field
  persisting, and \<open>getUserTokens(owner)\<close> keeps its length; otherwise the token is
  appended.
\<close>

theorem addUserToken_never_duplicates:
  assumes "well_formed (stored s (toLowerCase owner))"
    and "no_duplicates (stored s (toLowerCase owner))"
    and "is_string (token ''address'')"
  shows "\<exists>s'. addUserToken s owner token = Inr s' \<and>
           no_duplicates (stored s' (toLowerCase owner)) \<and>
           length (filter (\<lambda>t. laddr t = laddr token) (stored s' (toLowerCase owner))) = 1 \<and>
           (\<forall>i. i < length (stored s (toLowerCase owner)) \<and>
                 laddr (stored s (toLowerCase owner) ! i) = laddr token \<longrightarrow>
                 stored s' (toLowerCase owner) =
                   (stored s (toLowerCase owner))[i := (stored s (toLowerCase owner) ! i) ++ token] \<and>
                 (\<forall>k. (stored s' (toLowerCase owner) ! i) k =
                        (case token k of
                           Some v \<Rightarrow> Some v
                         | None \<Rightarrow> (stored s (toLowerCase owner) ! i) k)) \<and>
                 (\<exists>vs vs'. getUserTokens s owner = Inr vs \<and> getUserTokens s' owner = Inr vs' \<and>
                            length vs' = length vs)) \<and>
           ((\<forall>t\<in>set (stored s (toLowerCase owner)). laddr t \<noteq> laddr token) \<longrightarrow>
              stored s' (toLowerCase owner) = stored s (toLowerCase owner) @ [token])"
proof -
  let ?o = "toLowerCase owner"
  let ?old = "stored s ?o"
  define s' where
    "s' = saveToStorage (s\<lparr>userTokens := (userTokens s)(?o \<mapsto> add_record ?old token)\<rparr>)"
  have run: "addUserToken s owner token = Inr s'"
    unfolding s'_def using assms(1,3) by (rule addUserToken_pure)
  have new: "stored s' ?o = add_record ?old token"
    by (simp add: s'_def stored_def)
  have wf': "well_formed (stored s' ?o)"
    unfolding new using assms(1,3) by (rule well_formed_add_record)
  have nodup: "no_duplicates (stored s' ?o)"
    unfolding new using assms(2,3) by (rule no_duplicates_add_record)
  have one: "length (filter (\<lambda>t. laddr t = laddr token) (stored s' ?o)) = 1"
    unfolding new using assms(2,3) by (rule count_add_record)
  have present: "stored s' ?o = ?old[i := (?old ! i) ++ token] \<and>
          (\<forall>k. (stored s' ?o ! i) k =
                 (case token k of Some v \<Rightarrow> Some v | None \<Rightarrow> (?old ! i) k)) \<and>
          (\<exists>vs vs'. getUserTokens s owner = Inr vs \<and> getUserTokens s' owner = Inr vs' \<and>
                     length vs' = length vs)"
    if i: "i < length ?old" "laddr (?old ! i) = laddr token" for i
  proof -
    have upd: "stored s' ?o = ?old[i := (?old ! i) ++ token]"
      using assms(2) i unfolding new no_duplicates_def by (rule add_record_present)
    have "(stored s' ?o ! i) k = (case token k of Some v \<Rightarrow> Some v | None \<Rightarrow> (?old ! i) k)" for k
      using i(1) by (simp add: upd map_add_def)
    moreover have "getUserTokens s owner = Inr (map (view s) ?old)"
      using assms(1) by (rule getUserTokens_pure)
    moreover have "getUserTokens s' owner = Inr (map (view s') (stored s' ?o))"
      using wf' by (rule getUserTokens_pure)
    moreover have "length (stored s' ?o) = length ?old"
      by (simp add: upd)
    ultimately show ?thesis using upd by simp
  qed
  have absent: "stored s' ?o = ?old @ [token]" if "\<forall>t\<in>set ?old. laddr t \<noteq> laddr token"
    unfolding new using that by (rule add_record_absent)
  show ?thesis
    using run nodup one present absent by (intro exI[of _ s']) blast
qed

text \<open>The scenario of the specification: the token of owner \<open>0xAAA...\<close> is added again,
  in another case of the address and under another name.\<close>

theorem addUserToken_never_duplicates_witness:
  "\<exists>s'. addUserToken one_token_registry owner_A renamed_token = Inr s' \<and>
        stored s' (toLowerCase owner_A) = [test_token ++ renamed_token] \<and>
        (test_token ++ renamed_token) ''name'' = Some (JStr ''Renamed'') \<and>
        (test_token ++ renamed_token) ''symbol'' = Some (JStr ''TST'')"
proof -
  have old: "stored one_token_registry (toLowerCase owner_A) = [test_token]"
    by (simp add: stored_def one_token_registry_def empty_registry_def)
  have a: "laddr test_token = laddr renamed_token"
    by (simp add: laddr_def test_token_def renamed_token_def toLowerCase_def lower_char_def)
  have h1: "well_formed (stored one_token_registry (toLowerCase owner_A))"
    by (simp add: old well_formed_def test_token_def)
  have h2: "no_duplicates (stored one_token_registry (toLowerCase owner_A))"
    by (simp add: old no_duplicates_def)
  have h3: "is_string (renamed_token ''address'')"
    by (simp add: renamed_token_def)
  from addUserToken_never_duplicates[of one_token_registry owner_A renamed_token] h1 h2 h3
  obtain s' where s': "addUserToken one_token_registry owner_A renamed_token = Inr s'"
    and upd: "\<forall>i. i < length (stored one_token_registry (toLowerCase owner_A)) \<and>
                 laddr (stored one_token_registry (toLowerCase owner_A) ! i) = laddr renamed_token \<longrightarrow>
                 stored s' (toLowerCase owner_A) =
                   (stored one_token_registry (toLowerCase owner_A))
                     [i := (stored one_token_registry (toLowerCase owner_A) ! i) ++ renamed_token]"
    by blast
  from upd[rule_format, of 0] have "stored s' (toLowerCase owner_A) = [test_token ++ renamed_token]"
    by (simp add: old a)
  moreover have "(test_token ++ renamed_token) ''name'' = Some (JStr ''Renamed'')"
    by (simp add: test_token_def renamed_token_def map_add_def)
  moreover have "(test_token ++ renamed_token) ''symbol'' = Some (JStr ''TST'')"
    by (simp add: test_token_def renamed_token_def map_add_def)
  ultimately show ?thesis using s' by (intro exI[of _ s']) simp
qed

section \<open>What saving leaves behind\<close>

lemma console_saveToStorage:
  "console (saveToStorage s) =
     (if save_accepted s then console s
      else console s @ [''Error saving token data to storage:''])"
  by (simp add: saveToStorage_def save_accepted_def setItem_def console_error_def Date_now_def
        userTokens_json_def tokenMetadata_json_def
      split: sum.splits prod.splits)

lemma localStorage_saveToStorage_refused:
  "\<not> accepts s USER_TOKENS (userTokens_json s) \<Longrightarrow> localStorage (saveToStorage s) = localStorage s"
  by (simp add: saveToStorage_def setItem_def console_error_def)

lemma accepts_saveToStorage [simp]: "accepts (saveToStorage s) = accepts s"
  by (simp add: saveToStorage_def setItem_def console_error_def Date_now_def
           split: sum.splits prod.splits if_splits)

text \<open>
  What a run of \<open>saveToStorage\<close> leaves in the durable store: when the browser takes the
  three writes, the two documents and the clock reading, which is consumed.
\<close>

lemma localStorage_saveToStorage_accepted:
  assumes "save_accepted s"
  shows "localStorage (saveToStorage s) =
           (localStorage s)(USER_TOKENS \<mapsto> userTokens_json s,
                            TOKEN_METADATA \<mapsto> tokenMetadata_json s,
                            LAST_SYNC \<mapsto> JNum (shd (clock s)))"
    and "clock (saveToStorage s) = stl (clock s)"
    and "console (saveToStorage s) = console s"
  using assms
  by (simp_all add: saveToStorage_def save_accepted_def setItem_def Date_now_def
        userTokens_json_def tokenMetadata_json_def)

lemma saveToStorage_refused:
  assumes "\<not> accepts s USER_TOKENS (userTokens_json s)"
  shows "saveToStorage s = console_error s ''Error saving token data to storage:''"
  using assms by (simp add: saveToStorage_def setItem_def)

lemma totalUsers_new_owner:
  assumes "finite (dom (userTokens s))" and "userTokens s k = None"
    and "userTokens s' = (userTokens s)(k \<mapsto> ts)"
  shows "totalUsers s' = totalUsers s + 1"
proof -
  from assms(2) have "k \<notin> dom (userTokens s)"
    by (simp add: domIff)
  with assms(1) have "card (insert k (dom (userTokens s))) = card (dom (userTokens s)) + 1"
    by simp
  then show ?thesis
    by (simp add: totalUsers_def assms(3))
qed

section \<open>Removing a record\<close>

lemma other_address_string:
  "is_string (t ''address'') \<Longrightarrow> other_address a t = Inr (laddr t \<noteq> a)"
  by (simp add: other_address_def laddr_def call_toLowerCase_string)

lemma removeUserToken_pure:
  assumes "well_formed (stored s (toLowerCase owner))"
  shows "removeUserToken s owner tokenAddr =
         Inr (saveToStorage
                (s\<lparr>userTokens := (userTokens s)
                     (toLowerCase owner \<mapsto>
                        filter (\<lambda>t. laddr t \<noteq> toLowerCase tokenAddr)
                          (stored s (toLowerCase owner)))\<rparr>))"
proof -
  have "array_filter (other_address (toLowerCase tokenAddr)) (stored s (toLowerCase owner)) =
        Inr (filter (\<lambda>t. laddr t \<noteq> toLowerCase tokenAddr) (stored s (toLowerCase owner)))"
    using assms by (intro array_filter_pure) (simp add: well_formed_def other_address_string)
  then show ?thesis
    by (simp add: removeUserToken_def Let_def)
qed

lemma laddr_view [simp]: "laddr (view s t) = laddr t"
  by (simp add: laddr_def view_def)

lemma well_formed_filter: "well_formed ts \<Longrightarrow> well_formed (filter p ts)"
  by (simp add: well_formed_def)

lemma getUserTokens_cong:
  "stored s' (toLowerCase ow) = stored s (toLowerCase ow) \<Longrightarrow> tokenMetadata s' = tokenMetadata s \<Longrightarrow>
   getUserTokens s' ow = getUserTokens s ow"
proof -
  assume a: "stored s' (toLowerCase ow) = stored s (toLowerCase ow)" and b: "tokenMetadata s' = tokenMetadata s"
  have "with_metadata s' = with_metadata s"
    unfolding with_metadata_def b ..
  with a show ?thesis by (simp add: getUserTokens_def)
qed

text \<open>
  Claim C5, as the code has it. After \<open>removeUserToken(owner, address)\<close> the owner's
  list is the old one without the records of that address, so \<open>getUserTokens(owner)\<close>
  returns no record of it; the call raises nothing and leaves the metadata alone; and when
  no record of the owner has the address, \<open>getUserTokens\<close> returns for every owner what
  it returned before. The state changes all the same, whether the address was there or
  not. In memory, the owner's entry is set to the filtered list: an owner without an
  entry gets one, and the count of owners grows by one. And \<open>saveToStorage\<close> runs:
  when the browser takes the three writes, the durable store holds the two documents of
  the new state and the clock reading as the last-sync stamp, and that reading is consumed;
  when a write is refused the failure is logged; when the first write is refused the
  durable store and the clock stay as they were.
\<close>

theorem removeUserToken_removes:
  assumes "well_formed (stored s (toLowerCase owner))"
  shows "\<exists>m s'. m = s\<lparr>userTokens := (userTokens s)
                         (toLowerCase owner \<mapsto>
                            filter (\<lambda>t. laddr t \<noteq> toLowerCase tokenAddr)
                              (stored s (toLowerCase owner)))\<rparr> \<and>
           removeUserToken s owner tokenAddr = Inr s' \<and>
           stored s' (toLowerCase owner) =
             filter (\<lambda>t. laddr t \<noteq> toLowerCase tokenAddr) (stored s (toLowerCase owner)) \<and>
           (\<exists>vs. getUserTokens s' owner = Inr vs \<and>
                 (\<forall>v\<in>set vs. laddr v \<noteq> toLowerCase tokenAddr)) \<and>
           tokenMetadata s' = tokenMetadata s \<and>
           ((\<forall>t\<in>set (stored s (toLowerCase owner)). laddr t \<noteq> toLowerCase tokenAddr) \<longrightarrow>
              (\<forall>anyOwner. getUserTokens s' anyOwner = getUserTokens s anyOwner)) \<and>
           userTokens s' = userTokens m \<and>
           userTokens s' (toLowerCase owner) =
             Some (filter (\<lambda>t. laddr t \<noteq> toLowerCase tokenAddr) (stored s (toLowerCase owner))) \<and>
           (finite (dom (userTokens s)) \<and> userTokens s (toLowerCase owner) = None \<longrightarrow>
              userTokens s' (toLowerCase owner) = Some [] \<and> totalUsers s' = totalUsers s + 1) \<and>
           (save_accepted m \<longrightarrow>
              localStorage s' =
                (localStorage s)(USER_TOKENS \<mapsto> userTokens_json m,
                                 TOKEN_METADATA \<mapsto> tokenMetadata_json m,
                                 LAST_SYNC \<mapsto> JNum (shd (clock s))) \<and>
              lastSync s' = Some (JNum (shd (clock s))) \<and>
              clock s' = stl (clock s) \<and>
              console s' = console s) \<and>
           (\<not> save_accepted m \<longrightarrow>
              console s' = console s @ [''Error saving token data to storage:'']) \<and>
           (\<not> accepts s USER_TOKENS (userTokens_json m) \<longrightarrow>
              localStorage s' = localStorage s \<and> clock s' = clock s)"
proof -
  let ?o = "toLowerCase owner"
  let ?keep = "filter (\<lambda>t. laddr t \<noteq> toLowerCase tokenAddr) (stored s ?o)"
  define m where "m = s\<lparr>userTokens := (userTokens s)(?o \<mapsto> ?keep)\<rparr>"
  define s' where "s' = saveToStorage m"
  have run: "removeUserToken s owner tokenAddr = Inr s'"
    unfolding s'_def m_def using assms by (rule removeUserToken_pure)
  have ut: "userTokens s' = userTokens m"
    by (simp add: s'_def)
  have entry: "userTokens s' ?o = Some ?keep"
    by (simp add: ut m_def)
  have new: "stored s' ?o = ?keep"
    by (simp add: stored_def entry)
  have others: "stored s' k = stored s k" if "k \<noteq> ?o" for k
    using that by (simp add: stored_def ut m_def)
  have md: "tokenMetadata s' = tokenMetadata s"
    by (simp add: s'_def m_def)
  have "well_formed (stored s' ?o)"
    unfolding new using assms by (rule well_formed_filter)
  then have "getUserTokens s' owner = Inr (map (view s') (stored s' ?o))"
    by (rule getUserTokens_pure)
  moreover have "\<forall>v\<in>set (map (view s') (stored s' ?o)). laddr v \<noteq> toLowerCase tokenAddr"
    by (simp add: new)
  ultimately have gone: "\<exists>vs. getUserTokens s' owner = Inr vs \<and>
      (\<forall>v\<in>set vs. laddr v \<noteq> toLowerCase tokenAddr)"
    by blast
  have same: "\<forall>anyOwner. getUserTokens s' anyOwner = getUserTokens s anyOwner"
    if h: "\<forall>t\<in>set (stored s ?o). laddr t \<noteq> toLowerCase tokenAddr"
  proof
    fix anyOwner
    from h have "?keep = stored s ?o" by simp
    then have "stored s' (toLowerCase anyOwner) = stored s (toLowerCase anyOwner)"
      using new others by (cases "toLowerCase anyOwner = ?o") simp_all
    then show "getUserTokens s' anyOwner = getUserTokens s anyOwner"
      using md by (rule getUserTokens_cong)
  qed
  have fresh: "userTokens s' ?o = Some [] \<and> totalUsers s' = totalUsers s + 1"
    if h: "finite (dom (userTokens s)) \<and> userTokens s ?o = None"
  proof -
    from h have "stored s ?o = []"
      by (simp add: stored_def)
    then have "userTokens s' ?o = Some []"
      by (simp add: entry)
    moreover have "userTokens s' = (userTokens s)(?o \<mapsto> ?keep)"
      by (simp add: ut m_def)
    with h have "totalUsers s' = totalUsers s + 1"
      by (intro totalUsers_new_owner[where k = ?o and ts = ?keep]) simp_all
    ultimately show ?thesis by simp
  qed
  have c: "console m = console s" and l: "localStorage m = localStorage s"
    and a: "accepts m = accepts s" and k: "clock m = clock s"
    by (simp_all add: m_def)
  have taken: "localStorage s' =
                (localStorage s)(USER_TOKENS \<mapsto> userTokens_json m,
                                 TOKEN_METADATA \<mapsto> tokenMetadata_json m,
                                 LAST_SYNC \<mapsto> JNum (shd (clock s))) \<and>
              lastSync s' = Some (JNum (shd (clock s))) \<and>
              clock s' = stl (clock s) \<and>
              console s' = console s"
    if h: "save_accepted m"
    using localStorage_saveToStorage_accepted[OF h]
    by (simp add: s'_def c l k lastSync_def)
  have logged: "console s' = console s @ [''Error saving token data to storage:'']"
    if "\<not> save_accepted m"
    using that by (simp add: s'_def console_saveToStorage c)
  have refused: "localStorage s' = localStorage s \<and> clock s' = clock s"
    if "\<not> accepts s USER_TOKENS (userTokens_json m)"
  proof -
    from that have "\<not> accepts m USER_TOKENS (userTokens_json m)"
      by (simp add: a)
    then have "s' = console_error m ''Error saving token data to storage:''"
      unfolding s'_def by (rule saveToStorage_refused)
    then show ?thesis
      by (simp add: console_error_def l k)
  qed
  have "m = m \<and>
        removeUserToken s owner tokenAddr = Inr s' \<and>
        stored s' ?o = ?keep \<and>
        (\<exists>vs. getUserTokens s' owner = Inr vs \<and>
              (\<forall>v\<in>set vs. laddr v \<noteq> toLowerCase tokenAddr)) \<and>
        tokenMetadata s' = tokenMetadata s \<and>
        ((\<forall>t\<in>set (stored s ?o). laddr t \<noteq> toLowerCase tokenAddr) \<longrightarrow>
           (\<forall>anyOwner. getUserTokens s' anyOwner = getUserTokens s anyOwner)) \<and>
        userTokens s' = userTokens m \<and>
        userTokens s' ?o = Some ?keep \<and>
        (finite (dom (userTokens s)) \<and> userTokens s ?o = None \<longrightarrow>
           userTokens s' ?o = Some [] \<and> totalUsers s' = totalUsers s + 1) \<and>
        (save_accepted m \<longrightarrow>
           localStorage s' =
             (localStorage s)(USER_TOKENS \<mapsto> userTokens_json m,
                              TOKEN_METADATA \<mapsto> tokenMetadata_json m,
                              LAST_SYNC \<mapsto> JNum (shd (clock s))) \<and>
           lastSync s' = Some (JNum (shd (clock s))) \<and>
           clock s' = stl (clock s) \<and>
           console s' = console s) \<and>
        (\<not> save_accepted m \<longrightarrow>
           console s' = console s @ [''Error saving token data to storage:'']) \<and>
        (\<not> accepts s USER_TOKENS (userTokens_json m) \<longrightarrow>
           localStorage s' = localStorage s \<and> clock s' = clock s)"
    using run new gone md same ut entry fresh taken logged refused
    by (intro conjI impI) simp_all
  then show ?thesis
    unfolding m_def by (intro exI[of _ "s\<lparr>userTokens := (userTokens s)(?o \<mapsto> ?keep)\<rparr>"] exI[of _ s'])
qed

text \<open>
  The record is stored with a lower-case address and removed under the upper-case one; the
  store takes the writes.
\<close>

theorem removeUserToken_removes_witness:
  "\<exists>s'. removeUserToken one_token_registry owner_A ''0xDE709F2102306220921060314715629080E2FB77'' = Inr s' \<and>
        getUserTokens s' owner_A = Inr [] \<and>
        lastSync s' = Some (JNum 1700000000000)"
proof -
  let ?a = "''0xDE709F2102306220921060314715629080E2FB77''"
  have old: "stored one_token_registry (toLowerCase owner_A) = [test_token]"
    by (simp add: stored_def one_token_registry_def empty_registry_def)
  have h: "well_formed (stored one_token_registry (toLowerCase owner_A))"
    by (simp add: old well_formed_def test_token_def)
  have a: "laddr test_token = toLowerCase ?a"
    by (simp add: laddr_def test_token_def toLowerCase_def lower_char_def)
  from removeUserToken_removes[of one_token_registry owner_A ?a] h
  obtain m s' where m: "m = one_token_registry\<lparr>userTokens := (userTokens one_token_registry)
                         (toLowerCase owner_A \<mapsto>
                            filter (\<lambda>t. laddr t \<noteq> toLowerCase ?a)
                              (stored one_token_registry (toLowerCase owner_A)))\<rparr>"
    and s': "removeUserToken one_token_registry owner_A ?a = Inr s'"
    and new: "stored s' (toLowerCase owner_A) =
       filter (\<lambda>t. laddr t \<noteq> toLowerCase ?a) (stored one_token_registry (toLowerCase owner_A))"
    and taken: "save_accepted m \<longrightarrow>
              localStorage s' =
                (localStorage one_token_registry)(USER_TOKENS \<mapsto> userTokens_json m,
                                 TOKEN_METADATA \<mapsto> tokenMetadata_json m,
                                 LAST_SYNC \<mapsto> JNum (shd (clock one_token_registry))) \<and>
              lastSync s' = Some (JNum (shd (clock one_token_registry))) \<and>
              clock s' = stl (clock one_token_registry) \<and>
              console s' = console one_token_registry"
    by blast
  have "stored s' (toLowerCase owner_A) = []"
    unfolding new old using a by simp
  then have get: "getUserTokens s' owner_A = Inr []"
    by (simp add: getUserTokens_def)
  have "save_accepted m"
    by (simp add: save_accepted_def m one_token_registry_def empty_registry_def)
  with taken have "lastSync s' = Some (JNum (shd (clock one_token_registry)))"
    by simp
  then have "lastSync s' = Some (JNum 1700000000000)"
    by (simp add: one_token_registry_def empty_registry_def)
  with s' get show ?thesis by (intro exI[of _ s']) simp
qed

text \<open>
  Claim C5 as stated, with "no state change", fails: the state does change when the
  address is absent. On a registry without any owner the call gives the owner an (empty)
  entry, so that \<open>getStorageStats().totalUsers\<close> goes from 0 to 1, and it writes the
  durable store, the last-sync stamp included.
\<close>

theorem removeUserToken_absent_changes_state:
  "stored empty_registry (toLowerCase owner_A) = [] \<and>
   totalUsers empty_registry = 0 \<and>
   lastSync empty_registry = None \<and>
   map_sum id totalUsers
     (removeUserToken empty_registry owner_A ''0xDE709F2102306220921060314715629080E2FB77'') = Inr 1 \<and>
   map_sum id lastSync
     (removeUserToken empty_registry owner_A ''0xDE709F2102306220921060314715629080E2FB77'') =
     Inr (Some (JNum 1700000000000))"
proof -
  have e: "stored empty_registry (toLowerCase owner_A) = []"
    by (simp add: stored_def empty_registry_def)
  have r: "removeUserToken empty_registry owner_A ''0xDE709F2102306220921060314715629080E2FB77'' =
        Inr (saveToStorage (empty_registry\<lparr>userTokens := (userTokens empty_registry)(toLowerCase owner_A \<mapsto> [])\<rparr>))"
    by (simp add: removeUserToken_def Let_def e)
  have t0: "totalUsers empty_registry = 0"
    by (simp add: totalUsers_def empty_registry_def)
  have t1: "totalUsers (saveToStorage (empty_registry\<lparr>userTokens := (userTokens empty_registry)(toLowerCase owner_A \<mapsto> [])\<rparr>)) = 1"
    by (simp add: totalUsers_def empty_registry_def)
  have l0: "lastSync empty_registry = None"
    by (simp add: lastSync_def empty_registry_def)
  have l1: "lastSync (saveToStorage (empty_registry\<lparr>userTokens := (userTokens empty_registry)(toLowerCase owner_A \<mapsto> [])\<rparr>))
      = Some (JNum 1700000000000)"
    by (simp add: lastSync_def saveToStorage_def setItem_def Date_now_def empty_registry_def)
  show ?thesis
    unfolding r using e t0 t1 l0 l1 by simp
qed

section \<open>Searching\<close>

lemma str_includes_iff: "str_includes s q \<longleftrightarrow> (\<exists>before after. s = before @ q @ after)"
proof (induction s)
  case Nil
  then show ?case by auto
next
  case (Cons c cs)
  show ?case
  proof
    assume "str_includes (c # cs) q"
    then consider "prefix q (c # cs)" | "str_includes cs q" by auto
    then show "\<exists>before after. c # cs = before @ q @ after"
    proof cases
      case 1
      then obtain after where "c # cs = q @ after" by (auto simp: prefix_def)
      then have "c # cs = [] @ q @ after" by simp
      then show ?thesis by blast
    next
      case 2
      with Cons.IH obtain before after where "cs = before @ q @ after" by blast
      then have "c # cs = (c # before) @ q @ after" by simp
      then show ?thesis by blast
    qed
  next
    assume "\<exists>before after. c # cs = before @ q @ after"
    then obtain before after where eq: "c # cs = before @ q @ after" by blast
    show "str_includes (c # cs) q"
    proof (cases before)
      case Nil
      with eq have "prefix q (c # cs)" by (simp add: prefix_def)
      then show ?thesis by simp
    next
      case (Cons b bs)
      with eq have "cs = bs @ q @ after" by simp
      with Cons.IH have "str_includes cs q" by blast
      then show ?thesis by simp
    qed
  qed
qed

lemma str_includes_lower:
  "str_includes (String_toLowerCase lowerCase s) (String_toLowerCase lowerCase q) \<longleftrightarrow>
   contains_ignoring_case lowerCase s q"
  by (simp add: str_includes_iff contains_ignoring_case_def)

lemma String_toLowerCase_map: "String_toLowerCase (map f) s = map f s"
  by (simp add: String_toLowerCase_def)

text \<open>
  With a case mapping that works code unit by code unit, as on ASCII and on Latin-1,
  the field contains the query when case is ignored if and only if some part of the field
  is the query up to case.
\<close>

lemma contains_ignoring_case_unitwise:
  "contains_ignoring_case (map f) field query \<longleftrightarrow>
   (\<exists>before part after. field = before @ part @ after \<and> map f part = map f query)"
proof
  assume "contains_ignoring_case (map f) field query"
  then obtain before after where "map f field = before @ (map f query @ after)"
    by (auto simp: contains_ignoring_case_def String_toLowerCase_map)
  then have "\<exists>us vs. field = us @ vs \<and> before = map f us \<and> map f query @ after = map f vs"
    by (simp add: map_eq_append_conv)
  then obtain b r where s: "field = b @ r" and r: "map f query @ after = map f r"
    by blast
  from r have "\<exists>us vs. r = us @ vs \<and> map f query = map f us \<and> after = map f vs"
    by (simp add: append_eq_map_conv)
  then obtain p a where "r = p @ a" and "map f query = map f p"
    by blast
  with s have "field = b @ p @ a \<and> map f p = map f query"
    by simp
  then show "\<exists>before part after. field = before @ part @ after \<and> map f part = map f query"
    by blast
next
  assume "\<exists>before part after. field = before @ part @ after \<and> map f part = map f query"
  then obtain before part after where "field = before @ part @ after"
    and "map f part = map f query"
    by blast
  then have "map f field = map f before @ map f query @ map f after"
    by simp
  then show "contains_ignoring_case (map f) field query"
    unfolding contains_ignoring_case_def String_toLowerCase_map by auto
qed

lemma call_String_toLowerCase_string_of:
  "is_string v \<Longrightarrow>
   call_String_toLowerCase lowerCase v = Inr (String_toLowerCase lowerCase (string_of v))"
  by (auto dest: is_string_cases)

lemma matches_query_pure:
  assumes "is_string (t ''name'')" "is_string (t ''symbol'')" "is_string (t ''address'')"
  shows "matches_query lowerCase (String_toLowerCase lowerCase query) t =
         Inr (query_hit lowerCase query t)"
  using assms
  by (simp add: matches_query_def query_hit_def call_String_toLowerCase_string_of
        str_includes_lower)

lemma view_other [simp]: "k \<noteq> ''metadata'' \<Longrightarrow> view s t k = t k"
  by (simp add: view_def)

lemma searchTokens_pure:
  assumes "well_formed (stored s (toLowerCase owner))" "named (stored s (toLowerCase owner))"
  shows "searchTokens lowerCase s owner query =
         Inr (filter (query_hit lowerCase query) (map (view s) (stored s (toLowerCase owner))))"
proof -
  have get: "getUserTokens s owner = Inr (map (view s) (stored s (toLowerCase owner)))"
    using assms(1) by (rule getUserTokens_pure)
  have "array_filter (matches_query lowerCase (String_toLowerCase lowerCase query))
          (map (view s) (stored s (toLowerCase owner)))
        = Inr (filter (query_hit lowerCase query) (map (view s) (stored s (toLowerCase owner))))"
    using assms
    by (intro array_filter_pure) (auto simp: well_formed_def named_def intro!: matches_query_pure)
  with get show ?thesis by (simp add: searchTokens_def)
qed


lemma latin1_lower_empty: "String_toLowerCase latin1_lower s = latin1_lower s"
  by (simp add: String_toLowerCase_def latin1_lower_def)

text \<open>On ASCII strings the Latin-1 mapping is the lower-casing of the address keys.\<close>

lemma latin1_lower_ascii: "latin1_lower ''Edgen USD (0xAB)'' = toLowerCase ''Edgen USD (0xAB)''"
  by (simp add: latin1_lower_def latin1_lower_char_def toLowerCase_def lower_char_def)


lemma contains_empty: "contains_ignoring_case lowerCase s []"
  unfolding contains_ignoring_case_def String_toLowerCase_def
  by (rule exI[of _ "[]"]) simp

text \<open>
  Claim C10. With the empty string as the query, \<open>searchTokens\<close> returns all the records
  of the owner, as \<open>getUserTokens\<close> does.
\<close>

theorem searchTokens_empty_query:
  assumes "well_formed (stored s (toLowerCase owner))" and "named (stored s (toLowerCase owner))"
  shows "searchTokens lowerCase s owner [] = getUserTokens s owner \<and>
         (\<exists>tokens. getUserTokens s owner = Inr tokens \<and>
                    length tokens = length (stored s (toLowerCase owner)))"
proof -
  have get: "getUserTokens s owner = Inr (map (view s) (stored s (toLowerCase owner)))"
    using assms(1) by (rule getUserTokens_pure)
  have "query_hit lowerCase [] t" for t
    by (simp add: query_hit_def contains_empty)
  then have "filter (query_hit lowerCase []) ts = ts" for ts
    by simp
  then have "searchTokens lowerCase s owner [] = Inr (map (view s) (stored s (toLowerCase owner)))"
    using searchTokens_pure[OF assms, of lowerCase "[]"] by simp
  with get show ?thesis by simp
qed

theorem searchTokens_empty_query_witness:
  "searchTokens latin1_lower one_token_registry owner_A [] = Inr [test_token]"
proof -
  have old: "stored one_token_registry (toLowerCase owner_A) = [test_token]"
    by (simp add: stored_def one_token_registry_def empty_registry_def)
  have h1: "well_formed (stored one_token_registry (toLowerCase owner_A))"
    by (simp add: old well_formed_def test_token_def)
  have h2: "named (stored one_token_registry (toLowerCase owner_A))"
    by (simp add: old named_def test_token_def)
  have v: "view one_token_registry test_token = test_token"
    by (simp add: view_def one_token_registry_def empty_registry_def test_token_def)
  have get: "getUserTokens one_token_registry owner_A = Inr [test_token]"
    using getUserTokens_pure[OF h1] by (simp add: old v)
  from searchTokens_empty_query[OF h1 h2, of latin1_lower] get show ?thesis by simp
qed

section \<open>Writes that fail\<close>

text \<open>
  Claim C9. \<open>addToken\<close> returns normally whatever the store does with the writes; the
  owner's list in memory is the updated one in every case; and when a write is refused
  the failure is logged by \<open>console.error\<close> (nothing is rolled back; when the first write
  is refused the durable store keeps its old content).
\<close>

theorem addUserToken_fails_soft:
  assumes "well_formed (stored s (toLowerCase owner))" and "is_string (token ''address'')"
  shows "\<exists>m s'. m = s\<lparr>userTokens := (userTokens s)
                         (toLowerCase owner \<mapsto> add_record (stored s (toLowerCase owner)) token)\<rparr> \<and>
           addUserToken s owner token = Inr s' \<and>
           userTokens s' = userTokens m \<and>
           tokenMetadata s' = tokenMetadata s \<and>
           (save_accepted m \<longrightarrow> console s' = console s) \<and>
           (\<not> save_accepted m \<longrightarrow>
              console s' = console s @ [''Error saving token data to storage:'']) \<and>
           (\<not> accepts s USER_TOKENS (userTokens_json m) \<longrightarrow> localStorage s' = localStorage s)"
proof -
  define m where
    "m = s\<lparr>userTokens := (userTokens s)
            (toLowerCase owner \<mapsto> add_record (stored s (toLowerCase owner)) token)\<rparr>"
  have run: "addUserToken s owner token = Inr (saveToStorage m)"
    unfolding m_def using assms by (rule addUserToken_pure)
  have c: "console m = console s" and l: "localStorage m = localStorage s"
    and a: "accepts m = accepts s" and t: "tokenMetadata m = tokenMetadata s"
    by (simp_all add: m_def)
  have "userTokens (saveToStorage m) = userTokens m"
    by simp
  moreover have "tokenMetadata (saveToStorage m) = tokenMetadata s"
    by (simp add: t)
  moreover have "save_accepted m \<longrightarrow> console (saveToStorage m) = console s"
    by (simp add: console_saveToStorage c)
  moreover have "\<not> save_accepted m \<longrightarrow>
      console (saveToStorage m) = console s @ [''Error saving token data to storage:'']"
    by (simp add: console_saveToStorage c)
  moreover have "\<not> accepts s USER_TOKENS (userTokens_json m) \<longrightarrow>
      localStorage (saveToStorage m) = localStorage s"
    using localStorage_saveToStorage_refused[of m] by (simp add: a l)
  ultimately show ?thesis
    using run m_def by blast
qed

theorem addUserToken_fails_soft_witness:
  "\<exists>s'. addUserToken storage_disabled owner_A renamed_token = Inr s' \<and>
        stored s' (toLowerCase owner_A) = [test_token ++ renamed_token] \<and>
        console s' = [''Error saving token data to storage:''] \<and>
        localStorage s' USER_TOKENS = None"
proof -
  have old: "stored storage_disabled (toLowerCase owner_A) = [test_token]"
    by (simp add: stored_def storage_disabled_def one_token_registry_def empty_registry_def)
  have a: "laddr test_token = laddr renamed_token"
    by (simp add: laddr_def test_token_def renamed_token_def toLowerCase_def lower_char_def)
  have h1: "well_formed (stored storage_disabled (toLowerCase owner_A))"
    by (simp add: old well_formed_def test_token_def)
  have h2: "is_string (renamed_token ''address'')"
    by (simp add: renamed_token_def)
  have rec: "add_record [test_token] renamed_token = [test_token ++ renamed_token]"
    by (simp add: add_record_def a)
  have acc: "accepts storage_disabled = (\<lambda>k v. False)"
    by (simp add: storage_disabled_def)
  have c0: "console storage_disabled = []" and l0: "localStorage storage_disabled = Map.empty"
    by (simp_all add: storage_disabled_def one_token_registry_def empty_registry_def)
  from addUserToken_fails_soft[of storage_disabled owner_A renamed_token] h1 h2
  obtain m s' where m: "m = storage_disabled\<lparr>userTokens := (userTokens storage_disabled)
                         (toLowerCase owner_A \<mapsto> add_record (stored storage_disabled (toLowerCase owner_A)) renamed_token)\<rparr>"
    and run: "addUserToken storage_disabled owner_A renamed_token = Inr s'"
    and ut: "userTokens s' = userTokens m"
    and co: "\<not> save_accepted m \<longrightarrow>
              console s' = console storage_disabled @ [''Error saving token data to storage:'']"
    and lo: "\<not> accepts storage_disabled USER_TOKENS (userTokens_json m) \<longrightarrow>
              localStorage s' = localStorage storage_disabled"
    by blast
  have "\<not> save_accepted m"
    by (simp add: save_accepted_def m acc)
  with co have c: "console s' = [''Error saving token data to storage:'']"
    by (simp add: c0)
  from lo have l: "localStorage s' USER_TOKENS = None"
    by (simp add: acc l0)
  have "stored s' (toLowerCase owner_A) = [test_token ++ renamed_token]"
    by (simp add: stored_def ut m old[unfolded stored_def] rec)
  with run c l show ?thesis by (intro exI[of _ s']) simp
qed

section \<open>Metadata\<close>

lemma clock_saveToStorage:
  "clock (saveToStorage s) = clock s \<or> clock (saveToStorage s) = stl (clock s)"
  by (simp add: saveToStorage_def setItem_def console_error_def Date_now_def
           split: sum.splits prod.splits if_splits)

lemma clock_advances_stl:
  assumes "clock_advances s" and "clock s' = stl (clock s)"
  shows "clock_advances s'"
  unfolding clock_advances_def
proof
  fix i
  from assms(1) have "clock s !! Suc i \<le> clock s !! Suc (Suc i)"
    unfolding clock_advances_def by blast
  then show "clock s' !! i \<le> clock s' !! Suc i"
    by (simp add: assms(2))
qed

lemma clock_advances_shd_stl: "clock_advances s \<Longrightarrow> shd (clock s) \<le> shd (stl (clock s))"
proof -
  assume "clock_advances s"
  then have "clock s !! 0 \<le> clock s !! Suc 0" unfolding clock_advances_def by blast
  then show ?thesis by simp
qed

lemma timely_saveToStorage:
  assumes "clock_advances s" "stamps_past s"
  shows "clock_advances (saveToStorage s) \<and> stamps_past (saveToStorage s)"
proof -
  from clock_saveToStorage[of s] show ?thesis
  proof
    assume "clock (saveToStorage s) = clock s"
    with assms show ?thesis by (simp add: clock_advances_def stamps_past_def)
  next
    assume c: "clock (saveToStorage s) = stl (clock s)"
    have "clock_advances (saveToStorage s)"
      using assms(1) c by (rule clock_advances_stl)
    moreover have "stamps_past (saveToStorage s)"
      using assms clock_advances_shd_stl[OF assms(1)]
      by (auto simp: stamps_past_def c intro: order_trans)
    ultimately show ?thesis ..
  qed
qed

lemma updateTokenMetadata_unfold:
  "updateTokenMetadata s tokenAddr metadata =
     saveToStorage
       (s\<lparr>clock := stl (clock s),
          tokenMetadata := (tokenMetadata s)
            (toLowerCase tokenAddr \<mapsto>
               ((case tokenMetadata s (toLowerCase tokenAddr) of
                   None \<Rightarrow> [''lastUpdated'' \<mapsto> JNum 0]
                 | Some m \<Rightarrow> m) ++ metadata)(''lastUpdated'' \<mapsto> JNum (shd (clock s))))\<rparr>)"
  by (simp add: updateTokenMetadata_def Date_now_def Let_def)

text \<open>
  Claim C4. \<open>updateTokenMetadata(address, partial)\<close> leaves every field that is not in the
  partial as it was, takes the fields of the partial, starts from the entry with
  \<open>lastUpdated = 0\<close> when the address had no metadata, touches no other address and no
  token list, and stamps \<open>lastUpdated\<close> with the reading of the clock; with a clock that
  does not run backwards the stamp is never below the previous one (0 when there was
  none), and this holds again after the call.
\<close>

theorem updateTokenMetadata_frame:
  assumes "clock_advances s" and "stamps_past s"
  shows "\<exists>entry.
           tokenMetadata (updateTokenMetadata s tokenAddr partial) (toLowerCase tokenAddr) =
             Some entry \<and>
           (\<forall>k. k \<noteq> ''lastUpdated'' \<and> partial k = None \<longrightarrow>
                 entry k = (case tokenMetadata s (toLowerCase tokenAddr) of
                              None \<Rightarrow> None
                            | Some m \<Rightarrow> m k)) \<and>
           (\<forall>k v. k \<noteq> ''lastUpdated'' \<and> partial k = Some v \<longrightarrow> entry k = Some v) \<and>
           entry ''lastUpdated'' = Some (JNum (shd (clock s))) \<and>
           (tokenMetadata s (toLowerCase tokenAddr) = None \<longrightarrow>
              entry = ([''lastUpdated'' \<mapsto> JNum 0] ++ partial)
                        (''lastUpdated'' \<mapsto> JNum (shd (clock s)))) \<and>
           (\<forall>other. other \<noteq> toLowerCase tokenAddr \<longrightarrow>
              tokenMetadata (updateTokenMetadata s tokenAddr partial) other =
              tokenMetadata s other) \<and>
           userTokens (updateTokenMetadata s tokenAddr partial) = userTokens s \<and>
           lastUpdated_of (tokenMetadata s (toLowerCase tokenAddr)) \<le>
             lastUpdated_of (Some entry) \<and>
           clock_advances (updateTokenMetadata s tokenAddr partial) \<and>
           stamps_past (updateTokenMetadata s tokenAddr partial)"
proof -
  let ?a = "toLowerCase tokenAddr"
  let ?existing = "case tokenMetadata s ?a of None \<Rightarrow> [''lastUpdated'' \<mapsto> JNum 0] | Some m \<Rightarrow> m"
  define entry where "entry = (?existing ++ partial)(''lastUpdated'' \<mapsto> JNum (shd (clock s)))"
  define m where "m = s\<lparr>clock := stl (clock s), tokenMetadata := (tokenMetadata s)(?a \<mapsto> entry)\<rparr>"
  have run: "updateTokenMetadata s tokenAddr partial = saveToStorage m"
    by (simp add: updateTokenMetadata_unfold m_def entry_def)
  have md: "tokenMetadata (saveToStorage m) = (tokenMetadata s)(?a \<mapsto> entry)"
    by (simp add: m_def)
  have ut: "userTokens (saveToStorage m) = userTokens s"
    by (simp add: m_def)
  have stamp: "lastUpdated_of (Some entry) = shd (clock s)"
    by (simp add: lastUpdated_of_def entry_def)
  have prev: "lastUpdated_of (tokenMetadata s ?a) \<le> shd (clock s)"
    using assms(2) by (simp add: stamps_past_def)
  have adv: "clock_advances m"
    using assms(1) by (rule clock_advances_stl) (simp add: m_def)
  have next_reading: "shd (clock s) \<le> shd (clock m)"
    using clock_advances_shd_stl[OF assms(1)] by (simp add: m_def)
  have "lastUpdated_of (tokenMetadata m a) \<le> shd (clock m)" for a
  proof (cases "a = ?a")
    case True
    then show ?thesis using stamp next_reading by (simp add: m_def)
  next
    case False
    have "lastUpdated_of (tokenMetadata s a) \<le> shd (clock s)"
      using assms(2) by (simp add: stamps_past_def)
    with False next_reading show ?thesis by (simp add: m_def)
  qed
  then have "stamps_past m" by (simp add: stamps_past_def)
  with adv have timely: "clock_advances (saveToStorage m) \<and> stamps_past (saveToStorage m)"
    by (rule timely_saveToStorage)
  have kept: "entry k = (case tokenMetadata s ?a of None \<Rightarrow> None | Some m \<Rightarrow> m k)"
    if "k \<noteq> ''lastUpdated''" "partial k = None" for k
    using that by (simp add: entry_def map_add_def split: option.splits)
  have taken: "entry k = Some v" if "k \<noteq> ''lastUpdated''" "partial k = Some v" for k v
    using that by (simp add: entry_def map_add_def)
  have fresh: "entry = ([''lastUpdated'' \<mapsto> JNum 0] ++ partial)(''lastUpdated'' \<mapsto> JNum (shd (clock s)))"
    if "tokenMetadata s ?a = None"
    using that by (simp add: entry_def)
  have now: "entry ''lastUpdated'' = Some (JNum (shd (clock s)))"
    by (simp add: entry_def)
  show ?thesis
    unfolding run md ut
    using kept taken fresh now stamp prev timely
    by (intro exI[of _ entry]) (simp add: run)
qed

lemma ticking: "((\<lambda>t. t + 1) ^^ i) (x::int) = x + int i"
  by (induction i) simp_all

lemma empty_registry_timely: "clock_advances empty_registry \<and> stamps_past empty_registry"
  by (simp add: clock_advances_def stamps_past_def empty_registry_def lastUpdated_of_def ticking)

text \<open>Tags first, a description afterwards: the tags stay and the stamp does not go down.\<close>

theorem updateTokenMetadata_frame_witness:
  "\<exists>e1 e2.
     tokenMetadata (updateTokenMetadata empty_registry owner_A tagged) (toLowerCase owner_A) = Some e1 \<and>
     tokenMetadata
       (updateTokenMetadata (updateTokenMetadata empty_registry owner_A tagged) owner_A described)
       (toLowerCase owner_A) = Some e2 \<and>
     e2 ''tags'' = Some (JArr [JStr ''defi'', JStr ''test'']) \<and>
     e2 ''description'' = Some (JStr ''A test token'') \<and>
     lastUpdated_of (Some e1) \<le> lastUpdated_of (Some e2)"
proof -
  let ?a = "toLowerCase owner_A"
  let ?s1 = "updateTokenMetadata empty_registry owner_A tagged"
  let ?s2 = "updateTokenMetadata ?s1 owner_A described"
  have t0: "clock_advances empty_registry" "stamps_past empty_registry"
    using empty_registry_timely by simp_all
  from updateTokenMetadata_frame[OF t0, of owner_A tagged]
  obtain e1 where e1: "tokenMetadata ?s1 ?a = Some e1"
    and taken1: "\<forall>k v. k \<noteq> ''lastUpdated'' \<and> tagged k = Some v \<longrightarrow> e1 k = Some v"
    and t1: "clock_advances ?s1" "stamps_past ?s1"
    by blast
  have tags1: "e1 ''tags'' = Some (JArr [JStr ''defi'', JStr ''test''])"
    using taken1[rule_format, of "''tags''" "JArr [JStr ''defi'', JStr ''test'']"]
    by (simp add: tagged_def)
  from updateTokenMetadata_frame[OF t1, of owner_A described]
  obtain e2 where e2: "tokenMetadata ?s2 ?a = Some e2"
    and kept2: "\<forall>k. k \<noteq> ''lastUpdated'' \<and> described k = None \<longrightarrow>
                 e2 k = (case tokenMetadata ?s1 ?a of None \<Rightarrow> None | Some m \<Rightarrow> m k)"
    and taken2: "\<forall>k v. k \<noteq> ''lastUpdated'' \<and> described k = Some v \<longrightarrow> e2 k = Some v"
    and le: "lastUpdated_of (tokenMetadata ?s1 ?a) \<le> lastUpdated_of (Some e2)"
    by blast
  have tags2: "e2 ''tags'' = Some (JArr [JStr ''defi'', JStr ''test''])"
    using kept2[rule_format, of "''tags''"] by (simp add: described_def e1 tags1)
  have descr2: "e2 ''description'' = Some (JStr ''A test token'')"
    using taken2[rule_format, of "''description''" "JStr ''A test token''"]
    by (simp add: described_def)
  from le have "lastUpdated_of (Some e1) \<le> lastUpdated_of (Some e2)"
    by (simp add: e1)
  with e1 e2 tags2 descr2 show ?thesis
    by (intro exI[of _ e1] exI[of _ e2]) simp
qed

section \<open>Import\<close>

lemma props_properties: "e \<noteq> JNull \<Longrightarrow> props e = Inr (properties e)"
  by (cases e) simp_all

lemma isValidToken_address: "isValidToken isAddress t \<Longrightarrow> is_string (t ''address'')"
  by (simp add: isValidToken_def)

lemma stored_update:
  "stored (s\<lparr>userTokens := (userTokens s)(k \<mapsto> ts)\<rparr>) k' = (if k' = k then ts else stored s k')"
  by (simp add: stored_def)

lemma import_tokens_pure:
  assumes "well_formed (stored s (toLowerCase owner))" and "JNull \<notin> set entries"
  shows "\<exists>s'. import_tokens isAddress s owner entries = (None, s') \<and>
           stored s' (toLowerCase owner) =
             add_records (stored s (toLowerCase owner)) (valid_records isAddress entries) \<and>
           (\<forall>k. k \<noteq> toLowerCase owner \<longrightarrow> stored s' k = stored s k) \<and>
           tokenMetadata s' = tokenMetadata s"
  using assms
proof (induction entries arbitrary: s)
  case Nil
  then show ?case by (simp add: valid_records_def add_records_def)
next
  case (Cons e es)
  let ?o = "toLowerCase owner"
  from Cons.prems have e: "props e = Inr (properties e)" and es: "JNull \<notin> set es"
    by (auto intro: props_properties)
  show ?case
  proof (cases "isValidToken isAddress (properties e)")
    case False
    from Cons.IH[OF Cons.prems(1) es] False e show ?thesis
      by (simp add: valid_records_def)
  next
    case True
    define m where
      "m = saveToStorage (s\<lparr>userTokens := (userTokens s)
              (?o \<mapsto> add_record (stored s ?o) (properties e))\<rparr>)"
    have str: "is_string (properties e ''address'')"
      using True by (rule isValidToken_address)
    have add: "addUserToken s owner (properties e) = Inr m"
      unfolding m_def using Cons.prems(1) str by (rule addUserToken_pure)
    have st: "stored m k = (if k = ?o then add_record (stored s ?o) (properties e) else stored s k)" for k
      by (simp add: m_def stored_update)
    have md: "tokenMetadata m = tokenMetadata s"
      by (simp add: m_def)
    have "well_formed (stored m ?o)"
      using Cons.prems(1) str by (simp add: st well_formed_add_record)
    from Cons.IH[OF this es]
    obtain s' where s': "import_tokens isAddress m owner es = (None, s')"
      and a: "stored s' ?o = add_records (stored m ?o) (valid_records isAddress es)"
      and b: "\<forall>k. k \<noteq> ?o \<longrightarrow> stored s' k = stored m k"
      and c: "tokenMetadata s' = tokenMetadata m"
      by blast
    have "import_tokens isAddress s owner (e # es) = (None, s')"
      using e True add s' by simp
    moreover have "stored s' ?o = add_records (stored s ?o) (valid_records isAddress (e # es))"
      using a True by (simp add: st valid_records_def add_records_def)
    moreover have "\<forall>k. k \<noteq> ?o \<longrightarrow> stored s' k = stored s k"
      using b by (simp add: st)
    moreover have "tokenMetadata s' = tokenMetadata s"
      using c md by simp
    ultimately show ?thesis by blast
  qed
qed

lemma add_records_fresh:
  assumes "distinct (map laddr (ts @ tokens))"
  shows "add_records ts tokens = ts @ tokens"
  using assms
proof (induction tokens arbitrary: ts)
  case Nil
  then show ?case by (simp add: add_records_def)
next
  case (Cons t tokens)
  from Cons.prems have "laddr t \<notin> laddr ` set ts"
    by auto
  then have "\<forall>x\<in>set ts. laddr x \<noteq> laddr t"
    by (metis imageI)
  then have one: "add_record ts t = ts @ [t]"
    by (rule add_record_absent)
  from Cons.prems have "distinct (map laddr ((ts @ [t]) @ tokens))"
    by simp
  from Cons.IH[OF this] have "add_records (ts @ [t]) tokens = ts @ t # tokens"
    by simp
  with one show ?case by (simp add: add_records_def)
qed

lemma importUserData_pure:
  assumes "well_formed (stored s (toLowerCase owner))"
    and "data = Text (JObj p)"
    and "p ''tokens'' = Some (JArr entries)"
    and "JNull \<notin> set entries"
  shows "\<exists>s'. importUserData isAddress s owner data = (True, s') \<and>
           stored s' (toLowerCase owner) =
             add_records (stored s (toLowerCase owner)) (valid_records isAddress entries) \<and>
           (distinct (map laddr (stored s (toLowerCase owner) @ valid_records isAddress entries)) \<longrightarrow>
              stored s' (toLowerCase owner) =
                stored s (toLowerCase owner) @ valid_records isAddress entries \<and>
              length (stored s' (toLowerCase owner)) =
                length (stored s (toLowerCase owner)) + length (valid_records isAddress entries)) \<and>
           (\<forall>k. k \<noteq> toLowerCase owner \<longrightarrow> stored s' k = stored s k) \<and>
           tokenMetadata s' = tokenMetadata s"
proof -
  from import_tokens_pure[OF assms(1,4), of isAddress]
  obtain s' where s': "import_tokens isAddress s owner entries = (None, s')"
    and a: "stored s' (toLowerCase owner) =
             add_records (stored s (toLowerCase owner)) (valid_records isAddress entries)"
    and b: "\<forall>k. k \<noteq> toLowerCase owner \<longrightarrow> stored s' k = stored s k"
    and c: "tokenMetadata s' = tokenMetadata s"
    by blast
  have run: "importUserData isAddress s owner data = (True, s')"
    using s' by (simp add: importUserData_def assms(2,3))
  have "stored s' (toLowerCase owner) =
          stored s (toLowerCase owner) @ valid_records isAddress entries \<and>
        length (stored s' (toLowerCase owner)) =
          length (stored s (toLowerCase owner)) + length (valid_records isAddress entries)"
    if "distinct (map laddr (stored s (toLowerCase owner) @ valid_records isAddress entries))"
    using add_records_fresh[OF that] a by simp
  with run a b c show ?thesis
    by (intro exI[of _ s']) blast
qed

text \<open>
  What \<open>importUserData\<close> does with the entries that are not \<open>null\<close>
  (lemma \<open>importUserData_pure\<close>): on a payload that parses to an object whose \<open>tokens\<close>
  is an array without \<open>null\<close>, it returns \<open>true\<close>, has called \<open>addUserToken\<close> for the
  valid records, in their order, and for no other entry. In the example, a record with a
  creator that is no address and a number are passed over, and the valid record between
  them is added.
\<close>

lemma importUserData_payload:
  "\<exists>s'. importUserData hex_address empty_registry owner_A payload = (True, s') \<and>
        stored s' (toLowerCase owner_A) = [test_token]"
proof -
  let ?entries = "[JObj bad_creator_token, JObj test_token, JNum 7]"
  let ?p = "[''version'' \<mapsto> JStr ''1.0'', ''tokens'' \<mapsto> JArr ?entries]"
  have e: "stored empty_registry (toLowerCase owner_A) = []"
    by (simp add: stored_def empty_registry_def)
  have h1: "well_formed (stored empty_registry (toLowerCase owner_A))"
    by (simp add: e well_formed_def)
  have h2: "payload = Text (JObj ?p)"
    by (simp add: payload_def)
  have h3: "?p ''tokens'' = Some (JArr ?entries)"
    by simp
  have h4: "JNull \<notin> set ?entries"
    by simp
  have bad: "\<not> isValidToken hex_address bad_creator_token"
    by (simp add: isValidToken_def bad_creator_token_def hex_address_def)
  have good: "isValidToken hex_address test_token"
    by (simp add: isValidToken_def test_token_def hex_address_def)
  have none: "\<not> isValidToken hex_address Map.empty"
    by (simp add: isValidToken_def)
  have v: "valid_records hex_address ?entries = [test_token]"
    by (simp add: valid_records_def bad good none)
  from importUserData_pure[OF h1 h2 h3 h4, of hex_address]
  obtain s' where run: "importUserData hex_address empty_registry owner_A payload = (True, s')"
    and grown: "distinct (map laddr (stored empty_registry (toLowerCase owner_A) @
                    valid_records hex_address ?entries)) \<longrightarrow>
                stored s' (toLowerCase owner_A) =
                  stored empty_registry (toLowerCase owner_A) @ valid_records hex_address ?entries"
    by blast
  from grown have "stored s' (toLowerCase owner_A) = [test_token]"
    by (simp add: e v)
  with run show ?thesis by (intro exI[of _ s']) simp
qed

lemma import_tokens_append:
  "import_tokens isAddress s owner (xs @ ys) =
     (case import_tokens isAddress s owner xs of
        (None, s') \<Rightarrow> import_tokens isAddress s' owner ys
      | (Some e, s') \<Rightarrow> (Some e, s'))"
  by (induction xs arbitrary: s) (auto split: sum.splits)

text \<open>
  Claim C3 fails on the code: a \<open>null\<close> among the entries is an invalid record that
  is not skipped. \<open>isValidToken\<close> reads \<open>token.address\<close>, which throws on \<open>null\<close>; the
  \<open>catch\<close> of \<open>importUserData\<close> takes over, and the call logs the exception and
  returns \<open>false\<close>. The valid records before the \<open>null\<close> have been added by then, and no
  entry after it is looked at, however many valid records there are among them. This
  holds whatever \<open>ethers.isAddress\<close> accepts.
\<close>

theorem importUserData_null_aborts:
  assumes "well_formed (stored s (toLowerCase owner))"
    and "data = Text (JObj p)"
    and "p ''tokens'' = Some (JArr (before @ JNull # after))"
    and "JNull \<notin> set before"
  shows "\<exists>s'. importUserData isAddress s owner data =
              (False, console_error s' ''Error importing user data:'') \<and>
           stored s' (toLowerCase owner) =
             add_records (stored s (toLowerCase owner)) (valid_records isAddress before) \<and>
           (\<forall>k. k \<noteq> toLowerCase owner \<longrightarrow> stored s' k = stored s k) \<and>
           tokenMetadata s' = tokenMetadata s"
proof -
  from import_tokens_pure[OF assms(1,4), of isAddress]
  obtain s' where s': "import_tokens isAddress s owner before = (None, s')"
    and a: "stored s' (toLowerCase owner) =
             add_records (stored s (toLowerCase owner)) (valid_records isAddress before)"
    and b: "\<forall>k. k \<noteq> toLowerCase owner \<longrightarrow> stored s' k = stored s k"
    and c: "tokenMetadata s' = tokenMetadata s"
    by blast
  have "import_tokens isAddress s owner (before @ JNull # after) = (Some TypeError, s')"
    by (simp add: import_tokens_append s')
  then have "importUserData isAddress s owner data =
      (False, console_error s' ''Error importing user data:'')"
    by (simp add: importUserData_def assms(2,3))
  with a b c show ?thesis by blast
qed

text \<open>
  The payload \<open>null_payload\<close> holds two records that pass \<open>isValidToken\<close> and, between
  them, \<open>null\<close>. The claim has the \<open>null\<close> skipped, both records added and \<open>true\<close>
  returned. The code returns \<open>false\<close> and logs the exception, and the owner's list holds
  the first record only. (Both records carry addresses in one case, which
  \<open>ethers.isAddress\<close> accepts as \<open>hex_address\<close> does.)
\<close>

theorem importUserData_null_aborts_witness:
  "isValidToken hex_address test_token \<and>
   isValidToken hex_address ecu_token \<and>
   fst (importUserData hex_address empty_registry owner_A null_payload) = False \<and>
   stored (snd (importUserData hex_address empty_registry owner_A null_payload))
     (toLowerCase owner_A) = [test_token] \<and>
   console (snd (importUserData hex_address empty_registry owner_A null_payload)) =
     [''Error importing user data:'']"
proof -
  let ?o = "toLowerCase owner_A"
  let ?p = "[''version'' \<mapsto> JStr ''1.0'',
             ''tokens'' \<mapsto> JArr ([JObj test_token] @ JNull # [JObj ecu_token])]"
  have good1: "isValidToken hex_address test_token"
    by (simp add: isValidToken_def test_token_def hex_address_def)
  have good2: "isValidToken hex_address ecu_token"
    by (simp add: isValidToken_def ecu_token_def hex_address_def)
  have e: "stored empty_registry ?o = []"
    by (simp add: stored_def empty_registry_def)
  have h1: "well_formed (stored empty_registry ?o)"
    by (simp add: e well_formed_def)
  have h2: "null_payload = Text (JObj ?p)"
    by (simp add: null_payload_def)
  have h3: "?p ''tokens'' = Some (JArr ([JObj test_token] @ JNull # [JObj ecu_token]))"
    by simp
  have h4: "JNull \<notin> set [JObj test_token]"
    by simp
  from importUserData_null_aborts[OF h1 h2 h3 h4, of hex_address]
  obtain s' where run: "importUserData hex_address empty_registry owner_A null_payload =
        (False, console_error s' ''Error importing user data:'')"
    and st: "stored s' ?o =
        add_records (stored empty_registry ?o) (valid_records hex_address [JObj test_token])"
    by blast
  have "valid_records hex_address [JObj test_token] = [test_token]"
    by (simp add: valid_records_def good1)
  then have one: "stored s' ?o = [test_token]"
    by (simp add: st e add_records_def add_record_def)
  define m where
    "m = saveToStorage (empty_registry\<lparr>userTokens := (userTokens empty_registry)
            (?o \<mapsto> add_record (stored empty_registry ?o) test_token)\<rparr>)"
  have str: "is_string (test_token ''address'')"
    using good1 by (rule isValidToken_address)
  have add: "addUserToken empty_registry owner_A test_token = Inr m"
    unfolding m_def using h1 str by (rule addUserToken_pure)
  have direct: "importUserData hex_address empty_registry owner_A null_payload =
      (False, console_error m ''Error importing user data:'')"
    by (simp add: importUserData_def null_payload_def good1 add)
  have "save_accepted (empty_registry\<lparr>userTokens := (userTokens empty_registry)
            (?o \<mapsto> add_record (stored empty_registry ?o) test_token)\<rparr>)"
    by (simp add: save_accepted_def empty_registry_def)
  then have "console m = []"
    by (simp add: m_def console_saveToStorage empty_registry_def)
  then have co: "console (snd (importUserData hex_address empty_registry owner_A null_payload)) =
      [''Error importing user data:'']"
    by (simp add: direct console_error_def)
  have "fst (importUserData hex_address empty_registry owner_A null_payload) = False"
    by (simp add: run)
  moreover have "stored (snd (importUserData hex_address empty_registry owner_A null_payload)) ?o =
      [test_token]"
    using one by (simp add: run console_error_def stored_def)
  ultimately show ?thesis
    using good1 good2 co by simp
qed

section \<open>Export followed by import\<close>

lemma view_idem: "view s' (view s t) = view s' t"
  unfolding view_def[of s' "view s t"] laddr_view by (simp add: view_def)

lemma isValidToken_view: "isValidToken isAddress (view s t) = isValidToken isAddress t"
  by (simp add: isValidToken_def)

lemma exportUserData_pure:
  assumes "well_formed (stored s (toLowerCase owner))"
  shows "exportUserData toISOString s owner =
         Inr (Text (JObj [''userAddress'' \<mapsto> JStr owner,
                          ''tokens'' \<mapsto> JArr (map JObj (map (view s) (stored s (toLowerCase owner)))),
                          ''exportedAt'' \<mapsto> JStr (toISOString (shd (clock s))),
                          ''version'' \<mapsto> JStr ''1.0'']),
              s\<lparr>clock := stl (clock s)\<rparr>)"
  using getUserTokens_pure[OF assms]
  by (simp add: exportUserData_def Date_now_def JSON_stringify_def)



section \<open>Decimal strings\<close>

lemma digit_cases:
  "d < 10 \<Longrightarrow> d = 0 \<or> d = 1 \<or> d = 2 \<or> d = 3 \<or> d = 4 \<or> d = 5 \<or> d = 6 \<or> d = 7 \<or> d = 8 \<or> d = (9::nat)"
  by arith

lemma digit_value_digit: "d < 10 \<Longrightarrow> digit_value (''0123456789'' ! d) = d"
  by (drule digit_cases) (auto simp: digit_value_def)

lemma digit_is_digit: "d < 10 \<Longrightarrow> is_digit (''0123456789'' ! d)"
  by (drule digit_cases) (auto simp: is_digit_def)

lemma digit_not_minus: "d < 10 \<Longrightarrow> ''0123456789'' ! d \<noteq> CHR ''-''"
  by (drule digit_cases) auto

lemma digits_value_snoc: "digits_value (ds @ [c]) = 10 * digits_value ds + digit_value c"
  by (simp add: digits_value_def)

lemma digits_nonempty: "digits n \<noteq> []"
  by (subst digits.simps) simp

lemma digits_value_digits: "digits_value (digits n) = n"
proof (induction n rule: digits.induct)
  case (1 n)
  show ?case
  proof (cases "n < 10")
    case True
    then show ?thesis
      by (subst digits.simps) (simp add: digits_value_def digit_value_digit)
  next
    case False
    with 1 have "digits_value (digits (n div 10)) = n div 10" by simp
    with False show ?thesis
      by (subst digits.simps) (simp add: digits_value_snoc digit_value_digit)
  qed
qed

lemma list_all_digits: "list_all is_digit (digits n)"
proof (induction n rule: digits.induct)
  case (1 n)
  show ?case
  proof (cases "n < 10")
    case True
    then have "is_digit (''0123456789'' ! n)" by (rule digit_is_digit)
    with True show ?thesis by (subst digits.simps) simp
  next
    case False
    have "is_digit (''0123456789'' ! (n mod 10))" by (rule digit_is_digit) simp
    moreover from 1 False have "list_all is_digit (digits (n div 10))" by simp
    ultimately show ?thesis using False by (subst digits.simps) simp
  qed
qed

lemma only_digits_digits: "only_digits (digits n)"
  by (simp add: only_digits_def digits_nonempty list_all_digits)

lemma hd_digits_not_minus: "hd (digits n) \<noteq> CHR ''-''"
proof -
  have "hd (digits n) \<in> set (digits n)" using digits_nonempty by simp
  then have "is_digit (hd (digits n))"
    using list_all_digits[of n] unfolding list_all_iff by blast
  then show ?thesis by (auto simp: is_digit_def)
qed

lemma bigint_toString_decimal:
  "is_decimal (bigint_toString n) \<and> decimal_value (bigint_toString n) = n"
proof (cases "n < 0")
  case True
  then show ?thesis
    by (simp add: bigint_toString_def only_digits_digits digits_value_digits)
next
  case False
  obtain c cs where d: "digits (nat n) = c # cs"
    using digits_nonempty[of "nat n"] by (cases "digits (nat n)") auto
  with hd_digits_not_minus[of "nat n"] have c: "c \<noteq> CHR ''-''" by simp
  have "only_digits (c # cs)" using only_digits_digits[of "nat n"] d by simp
  moreover have "digits_value (c # cs) = nat n" using digits_value_digits[of "nat n"] d by simp
  ultimately show ?thesis using False c d by (simp add: bigint_toString_def)
qed

lemma supply_string_decimal:
  "is_decimal (supply_string x) \<and>
   decimal_value (supply_string x) = (case x of None \<Rightarrow> 0 | Some n \<Rightarrow> n)"
proof (cases x)
  case None
  then show ?thesis
    by (simp add: supply_string_def only_digits_def is_digit_def digits_value_def digit_value_def)
next
  case (Some n)
  have "bigint_toString n \<noteq> []"
    using bigint_toString_decimal[of n] by auto
  with Some show ?thesis
    using bigint_toString_decimal[of n] by (simp add: supply_string_def)
qed

section \<open>Adding the same records again\<close>

lemma first_index_map: "first_index (\<lambda>x. f x = a) xs = first_index (\<lambda>b. b = a) (map f xs)"
  by (induction xs) simp_all

lemma first_index_same_keys:
  "map f xs = map f ys \<Longrightarrow> first_index (\<lambda>x. f x = a) xs = first_index (\<lambda>x. f x = a) ys"
  by (simp add: first_index_map[of f a xs] first_index_map[of f a ys])

lemma first_index_append_found:
  "first_index p xs = Some i \<Longrightarrow> first_index p (xs @ ys) = Some i"
  by (induction xs arbitrary: i) (auto split: if_splits)

lemma first_index_append_last:
  "first_index p xs = None \<Longrightarrow> p t \<Longrightarrow> first_index p (xs @ [t]) = Some (length xs)"
  by (induction xs) (auto split: if_splits)

lemma map_laddr_update:
  assumes "i < length xs" "laddr (xs ! i) = laddr t" "is_string (t ''address'')"
  shows "map laddr (xs[i := (xs ! i) ++ t]) = map laddr xs"
  using assms by (simp add: map_update laddr_merge list_update_same_conv)

lemma map_add_absorb: "dom t \<subseteq> dom t' \<Longrightarrow> t ++ t' = t'"
proof
  fix k
  assume "dom t \<subseteq> dom t'"
  then have "t' k = None \<Longrightarrow> t k = None" by auto
  then show "(t ++ t') k = t' k"
    by (cases "t' k") (simp_all add: map_add_def)
qed

lemma add_record_absorb:
  assumes "is_string (t ''address'')" "is_string (t' ''address'')"
    and "laddr t = laddr t'" and "dom t \<subseteq> dom t'"
  shows "add_record (add_record xs t) t' = add_record xs t'"
proof (cases "first_index (\<lambda>x. laddr x = laddr t') xs")
  case None
  then have one: "add_record xs t = xs @ [t]" "add_record xs t' = xs @ [t']"
    using assms(3) by (simp_all add: add_record_def)
  have "first_index (\<lambda>x. laddr x = laddr t') (xs @ [t]) = Some (length xs)"
    using None assms(3) by (intro first_index_append_last) simp_all
  then have "add_record (xs @ [t]) t' = xs @ [t ++ t']"
    by (simp add: add_record_def)
  with one assms(4) show ?thesis
    by (simp add: map_add_absorb)
next
  case (Some i)
  from first_index_Some[OF Some] have i: "i < length xs" "laddr (xs ! i) = laddr t'" by auto
  have one: "add_record xs t = xs[i := (xs ! i) ++ t]" "add_record xs t' = xs[i := (xs ! i) ++ t']"
    using Some assms(3) by (simp_all add: add_record_def)
  have "map laddr (xs[i := (xs ! i) ++ t]) = map laddr xs"
    using i assms(1,3) by (intro map_laddr_update) simp_all
  then have "first_index (\<lambda>x. laddr x = laddr t') (xs[i := (xs ! i) ++ t]) = Some i"
    using Some first_index_same_keys[of laddr "xs[i := (xs ! i) ++ t]" xs "laddr t'"] by simp
  then have "add_record (xs[i := (xs ! i) ++ t]) t' = xs[i := ((xs ! i) ++ t) ++ t']"
    using i(1) by (simp add: add_record_def)
  also have "((xs ! i) ++ t) ++ t' = (xs ! i) ++ t'"
    using assms(4) by (metis map_add_assoc map_add_absorb)
  finally show ?thesis using one by simp
qed

lemma add_record_commute:
  assumes "is_string (t ''address'')" "is_string (t' ''address'')"
    and "laddr t \<noteq> laddr t'" and "laddr t' \<in> laddr ` set xs"
  shows "add_record (add_record xs t) t' = add_record (add_record xs t') t"
proof -
  from assms(4) have "first_index (\<lambda>x. laddr x = laddr t') xs \<noteq> None"
    by (auto simp: first_index_None)
  then obtain j where j: "first_index (\<lambda>x. laddr x = laddr t') xs = Some j" by auto
  from first_index_Some[OF j] have jl: "j < length xs" "laddr (xs ! j) = laddr t'" by auto
  have right: "add_record xs t' = xs[j := (xs ! j) ++ t']"
    using j by (simp add: add_record_def)
  have keys': "map laddr (xs[j := (xs ! j) ++ t']) = map laddr xs"
    using jl assms(2) by (intro map_laddr_update) simp_all
  show ?thesis
  proof (cases "first_index (\<lambda>x. laddr x = laddr t) xs")
    case None
    then have left: "add_record xs t = xs @ [t]"
      by (simp add: add_record_def)
    have "first_index (\<lambda>x. laddr x = laddr t') (xs @ [t]) = Some j"
      using j by (rule first_index_append_found)
    then have l: "add_record (xs @ [t]) t' = xs[j := (xs ! j) ++ t'] @ [t]"
      using jl(1) by (simp add: add_record_def list_update_append1 nth_append)
    have "first_index (\<lambda>x. laddr x = laddr t) (xs[j := (xs ! j) ++ t']) = None"
      using None first_index_same_keys[OF keys', of "laddr t"] by simp
    then have r: "add_record (xs[j := (xs ! j) ++ t']) t = xs[j := (xs ! j) ++ t'] @ [t]"
      by (simp add: add_record_def)
    from l r left right show ?thesis by simp
  next
    case (Some i)
    from first_index_Some[OF Some] have il: "i < length xs" "laddr (xs ! i) = laddr t" by auto
    with jl assms(3) have ij: "i \<noteq> j" by auto
    have left: "add_record xs t = xs[i := (xs ! i) ++ t]"
      using Some by (simp add: add_record_def)
    have keys: "map laddr (xs[i := (xs ! i) ++ t]) = map laddr xs"
      using il assms(1) by (intro map_laddr_update) simp_all
    have "first_index (\<lambda>x. laddr x = laddr t') (xs[i := (xs ! i) ++ t]) = Some j"
      using j first_index_same_keys[OF keys, of "laddr t'"] by simp
    then have l: "add_record (xs[i := (xs ! i) ++ t]) t' =
        xs[i := (xs ! i) ++ t, j := (xs ! j) ++ t']"
      using ij by (simp add: add_record_def)
    have "first_index (\<lambda>x. laddr x = laddr t) (xs[j := (xs ! j) ++ t']) = Some i"
      using Some first_index_same_keys[OF keys', of "laddr t"] by simp
    then have r: "add_record (xs[j := (xs ! j) ++ t']) t =
        xs[j := (xs ! j) ++ t', i := (xs ! i) ++ t]"
      using ij by (simp add: add_record_def)
    from l r left right ij show ?thesis
      by (simp add: list_update_swap)
  qed
qed

lemma laddr_set_add_record:
  "is_string (t ''address'') \<Longrightarrow>
   laddr ` set (add_record xs t) = insert (laddr t) (laddr ` set xs)"
proof -
  assume "is_string (t ''address'')"
  then have "set (map laddr (add_record xs t)) = insert (laddr t) (laddr ` set xs)"
    by (auto simp: map_laddr_add_record)
  then show ?thesis by simp
qed

lemma add_records_Cons: "add_records xs (t # ts) = add_records (add_record xs t) ts"
  by (simp add: add_records_def)

lemma add_records_snoc: "add_records xs (ts @ [t]) = add_record (add_records xs ts) t"
  by (simp add: add_records_def)

lemma laddr_set_add_records:
  "\<forall>t\<in>set ts. is_string (t ''address'') \<Longrightarrow>
   laddr ` set (add_records xs ts) = laddr ` set xs \<union> laddr ` set ts"
proof (induction ts arbitrary: xs)
  case Nil
  then show ?case by (simp add: add_records_def)
next
  case (Cons t ts)
  then show ?case
    by (auto simp: add_records_Cons laddr_set_add_record)
qed

lemma add_records_again_last:
  assumes "\<forall>u\<in>set us. is_string (u ''address'') \<and> dom u = D"
    and "is_string (t ''address'')" and "dom t = D"
    and "\<forall>u\<in>set us. laddr u \<in> laddr ` set zs"
  shows "add_record (add_records (add_record zs t) us) t = add_record (add_records zs us) t"
  using assms(1,4)
proof (induction us arbitrary: zs)
  case Nil
  have "add_record (add_record zs t) t = add_record zs t"
    using assms(2) by (intro add_record_absorb) simp_all
  then show ?case by (simp add: add_records_def)
next
  case (Cons u us)
  from Cons.prems have u: "is_string (u ''address'')" "dom u = D" "laddr u \<in> laddr ` set zs"
    by simp_all
  from Cons.prems have us: "\<forall>v\<in>set us. is_string (v ''address'') \<and> dom v = D"
    by simp
  have present: "\<forall>v\<in>set us. laddr v \<in> laddr ` set (add_record zs u)"
    using Cons.prems(2) u(1) by (simp add: laddr_set_add_record)
  show ?case
  proof (cases "laddr t = laddr u")
    case True
    have "add_record (add_record zs t) u = add_record zs u"
      using assms(2) u(1) True assms(3) u(2) by (intro add_record_absorb) simp_all
    then show ?thesis by (simp add: add_records_Cons)
  next
    case False
    have "add_record (add_record zs t) u = add_record (add_record zs u) t"
      using assms(2) u(1) False u(3) by (rule add_record_commute)
    then have "add_record (add_records (add_record zs t) (u # us)) t =
               add_record (add_records (add_record (add_record zs u) t) us) t"
      by (simp add: add_records_Cons)
    also have "\<dots> = add_record (add_records (add_record zs u) us) t"
      using us present by (rule Cons.IH)
    finally show ?thesis by (simp add: add_records_Cons)
  qed
qed

lemma add_records_idempotent:
  assumes "\<forall>t\<in>set ts. is_string (t ''address'') \<and> dom t = D"
  shows "add_records (add_records xs ts) ts = add_records xs ts"
  using assms
proof (induction ts rule: rev_induct)
  case Nil
  then show ?case by (simp add: add_records_def)
next
  case (snoc t us)
  let ?ys = "add_records xs us"
  from snoc.prems have us: "\<forall>u\<in>set us. is_string (u ''address'') \<and> dom u = D"
    and t: "is_string (t ''address'')" "dom t = D"
    by simp_all
  have present: "\<forall>u\<in>set us. laddr u \<in> laddr ` set ?ys"
    using us by (simp add: laddr_set_add_records)
  have "add_records (add_records xs (us @ [t])) (us @ [t]) =
        add_record (add_records (add_record ?ys t) us) t"
    by (simp add: add_records_snoc)
  also have "\<dots> = add_record (add_records ?ys us) t"
    using us t present by (rule add_records_again_last)
  also have "add_records ?ys us = ?ys"
    using us by (rule snoc.IH)
  finally show ?case by (simp add: add_records_snoc)
qed

section \<open>Doubles\<close>

lemma bit_length_le: "n < 2 ^ k \<Longrightarrow> bit_length n \<le> k"
proof (induction k arbitrary: n)
  case 0
  then have "n \<le> 0" by simp
  then show ?case by (subst bit_length.simps) simp
next
  case (Suc k)
  show ?case
  proof (cases "n \<le> 0")
    case True
    then show ?thesis by (subst bit_length.simps) simp
  next
    case False
    from Suc.prems have "n div 2 < 2 ^ k" by simp
    then have "bit_length (n div 2) \<le> k" by (rule Suc.IH)
    with False show ?thesis by (subst bit_length.simps) simp
  qed
qed

lemma nearest_double_small:
  assumes "\<bar>x\<bar> < 2 ^ 53"
  shows "nearest_double x = x"
proof -
  from assms have "bit_length \<bar>x\<bar> \<le> 53"
    by (rule bit_length_le)
  then have "bit_length \<bar>x\<bar> - 53 = 0"
    by simp
  then have "nearest_double x = sgn x * \<bar>x\<bar>"
    by (simp add: nearest_double_def Let_def)
  then show ?thesis
    by (simp add: mult_sgn_abs)
qed

text \<open>Beyond 53 bits the low bits are rounded away, a tie towards the even significand.\<close>

lemma nearest_double_examples:
  "nearest_double 9007199254740992 = 9007199254740992"
  "nearest_double (- 9007199254740992) = - 9007199254740992"
  "nearest_double 9007199254740993 = 9007199254740992"
  "nearest_double 9007199254740994 = 9007199254740994"
  "nearest_double 9007199254740995 = 9007199254740996"
  "nearest_double (- 9007199254740993) = - 9007199254740992"
  "nearest_double 9007199254740992000 = 9007199254740992000"
  "nearest_double 9007199254740993000 = 9007199254740993024"
  by code_simp+

lemma nearest_double_exact:
  assumes "\<bar>x\<bar> \<le> 2 ^ 53"
  shows "nearest_double x = x"
proof (cases "\<bar>x\<bar> < 2 ^ 53")
  case True
  then show ?thesis by (rule nearest_double_small)
next
  case False
  with assms have "x = 9007199254740992 \<or> x = - 9007199254740992"
    by auto
  then show ?thesis
    using nearest_double_examples(1,2) by auto
qed

lemma createdAt_exact:
  assumes "0 \<le> c" and "c * 1000 \<le> 2 ^ 53"
  shows "times_number (Number_of_bigint c) 1000 = c * 1000"
proof -
  from assms have "\<bar>c\<bar> \<le> 2 ^ 53" by simp
  then have "Number_of_bigint c = c"
    unfolding Number_of_bigint_def by (rule nearest_double_exact)
  moreover from assms have "\<bar>c * 1000\<bar> \<le> 2 ^ 53" by simp
  then have "nearest_double (c * 1000) = c * 1000"
    by (rule nearest_double_exact)
  ultimately show ?thesis
    by (simp add: times_number_def)
qed

section \<open>Synchronisation\<close>

lemma add_record_holds:
  assumes "is_string (t ''address'')"
  shows "\<exists>r\<in>set (add_record zs t). laddr r = laddr t \<and> (\<forall>k\<in>dom t. r k = t k)"
proof (cases "first_index (\<lambda>x. laddr x = laddr t) zs")
  case None
  then show ?thesis by (simp add: add_record_def)
next
  case (Some i)
  from first_index_Some[OF Some] have i: "i < length zs" by simp
  let ?r = "(zs ! i) ++ t"
  have "?r \<in> set (zs[i := ?r])"
    using i by (simp add: set_update_memI)
  moreover have "laddr ?r = laddr t"
    using assms by (rule laddr_merge)
  moreover have "\<forall>k\<in>dom t. ?r k = t k"
    by (auto simp: map_add_def)
  ultimately show ?thesis
    using Some by (auto simp: add_record_def)
qed

lemma add_record_keeps:
  assumes "r \<in> set zs" and "laddr r \<noteq> laddr u"
  shows "r \<in> set (add_record zs u)"
proof (cases "first_index (\<lambda>x. laddr x = laddr u) zs")
  case None
  with assms(1) show ?thesis by (simp add: add_record_def)
next
  case (Some i)
  from first_index_Some[OF Some] have i: "i < length zs" "laddr (zs ! i) = laddr u" by auto
  from assms(1) obtain j where j: "j < length zs" "zs ! j = r"
    by (auto simp: in_set_conv_nth)
  with i assms(2) have "j \<noteq> i" by auto
  with j have "(zs[i := (zs ! i) ++ u]) ! j = r" by simp
  moreover have "j < length (zs[i := (zs ! i) ++ u])" using j by simp
  ultimately have "r \<in> set (zs[i := (zs ! i) ++ u])"
    by (metis nth_mem)
  with Some show ?thesis by (simp add: add_record_def)
qed

lemma add_records_keeps:
  assumes "r \<in> set zs" and "\<forall>u\<in>set us. laddr u \<noteq> laddr r"
  shows "r \<in> set (add_records zs us)"
  using assms
proof (induction us arbitrary: zs)
  case Nil
  then show ?case by (simp add: add_records_def)
next
  case (Cons u us)
  from Cons.prems have "r \<in> set (add_record zs u)"
    by (intro add_record_keeps) auto
  moreover from Cons.prems have "\<forall>v\<in>set us. laddr v \<noteq> laddr r" by simp
  ultimately have "r \<in> set (add_records (add_record zs u) us)"
    by (rule Cons.IH)
  then show ?case by (simp add: add_records_Cons)
qed

lemma add_records_append: "add_records zs (us @ vs) = add_records (add_records zs us) vs"
  by (simp add: add_records_def)

text \<open>
  After the records of a list have been added in turn, the list holds for each of them
  a record of its address, with the fields of the last one of that address.
\<close>

lemma add_records_last_wins:
  assumes "is_string (t ''address'')" and "\<forall>u\<in>set after. laddr u \<noteq> laddr t"
  shows "\<exists>r\<in>set (add_records zs (before @ t # after)).
           laddr r = laddr t \<and> (\<forall>k\<in>dom t. r k = t k)"
proof -
  from add_record_holds[of t "add_records zs before"] assms(1)
  obtain r where r: "r \<in> set (add_record (add_records zs before) t)"
    and a: "laddr r = laddr t" and f: "\<forall>k\<in>dom t. r k = t k"
    by blast
  from assms(2) a have "\<forall>u\<in>set after. laddr u \<noteq> laddr r" by simp
  with r have "r \<in> set (add_records (add_record (add_records zs before) t) after)"
    by (rule add_records_keeps)
  then have "r \<in> set (add_records zs (before @ t # after))"
    by (simp add: add_records_append add_records_Cons)
  with a f show ?thesis by blast
qed

lemma no_duplicates_add_records:
  "no_duplicates zs \<Longrightarrow> \<forall>u\<in>set us. is_string (u ''address'') \<Longrightarrow>
   no_duplicates (add_records zs us)"
proof (induction us arbitrary: zs)
  case Nil
  then show ?case by (simp add: add_records_def)
next
  case (Cons u us)
  from Cons.prems have "no_duplicates (add_record zs u)"
    by (intro no_duplicates_add_record) simp_all
  moreover from Cons.prems have "\<forall>v\<in>set us. is_string (v ''address'')" by simp
  ultimately show ?case
    by (simp add: add_records_Cons Cons.IH)
qed


lemma add_tokens_pure:
  assumes "well_formed (stored s (toLowerCase owner))"
    and "\<forall>t\<in>set tokens. is_string (t ''address'')"
  shows "\<exists>s'. add_tokens s owner tokens = (None, s') \<and>
           stored s' (toLowerCase owner) = add_records (stored s (toLowerCase owner)) tokens \<and>
           (\<forall>k. k \<noteq> toLowerCase owner \<longrightarrow> stored s' k = stored s k) \<and>
           tokenMetadata s' = tokenMetadata s \<and>
           well_formed (stored s' (toLowerCase owner))"
  using assms
proof (induction tokens arbitrary: s)
  case Nil
  then show ?case by (simp add: add_records_def)
next
  case (Cons t tokens)
  let ?o = "toLowerCase owner"
  define m where
    "m = saveToStorage (s\<lparr>userTokens := (userTokens s)(?o \<mapsto> add_record (stored s ?o) t)\<rparr>)"
  from Cons.prems have str: "is_string (t ''address'')"
    and rest: "\<forall>t\<in>set tokens. is_string (t ''address'')"
    by simp_all
  have add: "addUserToken s owner t = Inr m"
    unfolding m_def using Cons.prems(1) str by (rule addUserToken_pure)
  have st: "stored m k = (if k = ?o then add_record (stored s ?o) t else stored s k)" for k
    by (simp add: m_def stored_update)
  have md: "tokenMetadata m = tokenMetadata s"
    by (simp add: m_def)
  have "well_formed (stored m ?o)"
    using Cons.prems(1) str by (simp add: st well_formed_add_record)
  from Cons.IH[OF this rest]
  obtain s' where s': "add_tokens m owner tokens = (None, s')"
    and a: "stored s' ?o = add_records (stored m ?o) tokens"
    and b: "\<forall>k. k \<noteq> ?o \<longrightarrow> stored s' k = stored m k"
    and c: "tokenMetadata s' = tokenMetadata m"
    and d: "well_formed (stored s' ?o)"
    by blast
  have "add_tokens s owner (t # tokens) = (None, s')"
    using add s' by simp
  moreover have "stored s' ?o = add_records (stored s ?o) (t # tokens)"
    using a by (simp add: st add_records_Cons)
  moreover have "\<forall>k. k \<noteq> ?o \<longrightarrow> stored s' k = stored s k"
    using b by (simp add: st)
  moreover have "tokenMetadata s' = tokenMetadata s"
    using c md by simp
  ultimately show ?case using d by blast
qed

lemma userToken_of_address: "is_string (userToken_of chainId factoryToken ''address'')"
  by (simp add: userToken_of_def)

lemma laddr_userToken_of:
  "laddr (userToken_of chainId factoryToken) = toLowerCase (tokenAddress factoryToken)"
  by (simp add: laddr_def userToken_of_def)

lemma dom_userToken_of:
  "dom (userToken_of chainId factoryToken) =
     {''address'', ''name'', ''symbol'', ''initialSupply'', ''maxSupply'', ''decimals'',
      ''creator'', ''createdAt'', ''transactionHash'', ''network'', ''chainId''}"
  by (auto simp: userToken_of_def split: if_splits)

text \<open>The object literal has the eleven fields as the claim describes them.\<close>

lemma synced_record_userToken_of: "synced_record chainId factoryToken (userToken_of chainId factoryToken)"
proof -
  have "entry ''createdAt'' =
          Some (JNum (times_number (Number_of_bigint (createdAt factoryToken)) 1000)) \<Longrightarrow>
        0 \<le> createdAt factoryToken \<and> createdAt factoryToken * 1000 \<le> 2 ^ 53 \<longrightarrow>
        entry ''createdAt'' = Some (JNum (createdAt factoryToken * 1000))" for entry :: obj
    by (simp add: createdAt_exact)
  then show ?thesis
    using supply_string_decimal[of "initialSupply factoryToken"]
      supply_string_decimal[of "maxSupply factoryToken"]
    by (simp add: synced_record_def userToken_of_def)
qed

text \<open>A record that agrees with the object literal on its eleven fields is such a record.\<close>

lemma synced_record_fields:
  assumes "\<forall>k\<in>dom (userToken_of chainId factoryToken). r k = userToken_of chainId factoryToken k"
  shows "synced_record chainId factoryToken r"
proof -
  have f: "r k = userToken_of chainId factoryToken k"
    if "userToken_of chainId factoryToken k \<noteq> None" for k
    using assms that by (simp add: domIff)
  have eqs: "r ''address'' = userToken_of chainId factoryToken ''address''"
    "r ''name'' = userToken_of chainId factoryToken ''name''"
    "r ''symbol'' = userToken_of chainId factoryToken ''symbol''"
    "r ''initialSupply'' = userToken_of chainId factoryToken ''initialSupply''"
    "r ''maxSupply'' = userToken_of chainId factoryToken ''maxSupply''"
    "r ''decimals'' = userToken_of chainId factoryToken ''decimals''"
    "r ''creator'' = userToken_of chainId factoryToken ''creator''"
    "r ''createdAt'' = userToken_of chainId factoryToken ''createdAt''"
    "r ''transactionHash'' = userToken_of chainId factoryToken ''transactionHash''"
    "r ''network'' = userToken_of chainId factoryToken ''network''"
    "r ''chainId'' = userToken_of chainId factoryToken ''chainId''"
    by (rule f, simp add: userToken_of_def)+
  show ?thesis
    using synced_record_userToken_of[of chainId factoryToken]
    unfolding synced_record_def eqs .
qed

text \<open>
  The slip with \<open>decimals\<close>: it is a bigint in the record, so the record of a
  synchronised token does not pass \<open>isValidToken\<close>.
\<close>

lemma userToken_of_not_valid: "\<not> isValidToken isAddress (userToken_of chainId factoryToken)"
  by (simp add: isValidToken_def userToken_of_def)

text \<open>Without a signer or an address nothing is done; a rejected query is reported.\<close>

lemma syncWithBlockchain_skipped:
  "\<not> signer \<or> userAddress = [] \<Longrightarrow>
   syncWithBlockchain s signer userAddress chainId response = (None, s)"
  by (auto simp: syncWithBlockchain_def)

lemma syncWithBlockchain_rejected:
  "userAddress \<noteq> [] \<Longrightarrow>
   syncWithBlockchain s True userAddress chainId (Inl e) = (Some e, s)"
  by (simp add: syncWithBlockchain_def)




section \<open>Account changes\<close>

text \<open>
  Claim C7. An account-change notification with no accounts leaves the session
  disconnected, with the empty address (and the balance and network status reset, and
  \<open>onWalletDisconnected\<close> called), whatever it was before. A notification with accounts
  makes the session resolve itself again: when the wallet answers the requests, the
  session is connected, with the address of the wallet's signer, the balance of that
  address and the network status of the wallet's chain, and \<open>onWalletConnected\<close> is called
  with that address.
\<close>

theorem handleAccountsChanged_transitions:
  "isConnected (handleAccountsChanged formatEther window_ethereum [] w) = False \<and>
   address (handleAccountsChanged formatEther window_ethereum [] w) = [] \<and>
   balance (handleAccountsChanged formatEther window_ethereum [] w) = ''0'' \<and>
   networkStatus (handleAccountsChanged formatEther window_ethereum [] w) = Unknown \<and>
   called (handleAccountsChanged formatEther window_ethereum [] w) = called w @ [WalletDisconnected] \<and>
   (accounts \<noteq> [] \<and> window_ethereum = Some eth \<and>
    eth_accounts eth = Inr current \<and> current \<noteq> [] \<and>
    getSigner eth = Inr primary \<and> getNetwork eth = Inr chainId \<and>
    getBalance eth primary = Inr balanceWei \<longrightarrow>
      isConnected (handleAccountsChanged formatEther window_ethereum accounts w) = True \<and>
      address (handleAccountsChanged formatEther window_ethereum accounts w) = primary \<and>
      balance (handleAccountsChanged formatEther window_ethereum accounts w) = formatEther balanceWei \<and>
      networkStatus (handleAccountsChanged formatEther window_ethereum accounts w) =
        (if chainId = 4207 then Correct else Wrong) \<and>
      called (handleAccountsChanged formatEther window_ethereum accounts w) =
        called w @ [WalletConnected primary])"
  by (simp add: handleAccountsChanged_def checkConnection_def Let_def)

theorem handleAccountsChanged_transitions_witness:
  "isConnected (handleAccountsChanged (\<lambda>wei. ''0.0'') (Some answering_wallet)
      [''0x8617E340B3D01FA5F11F306F4090FD50E238070D''] connected_wallet) = True \<and>
   address (handleAccountsChanged (\<lambda>wei. ''0.0'') (Some answering_wallet)
      [''0x8617E340B3D01FA5F11F306F4090FD50E238070D''] connected_wallet) =
     ''0x8617E340B3D01FA5F11F306F4090FD50E238070D'' \<and>
   networkStatus (handleAccountsChanged (\<lambda>wei. ''0.0'') (Some answering_wallet)
      [''0x8617E340B3D01FA5F11F306F4090FD50E238070D''] connected_wallet) = Wrong \<and>
   isConnected (handleAccountsChanged (\<lambda>wei. ''0.0'') (Some answering_wallet) [] connected_wallet) = False \<and>
   address (handleAccountsChanged (\<lambda>wei. ''0.0'') (Some answering_wallet) [] connected_wallet) = []"
proof -
  have h: "[''0x8617E340B3D01FA5F11F306F4090FD50E238070D''] \<noteq> [] \<and>
      Some answering_wallet = Some answering_wallet \<and>
      eth_accounts answering_wallet = Inr [''0x8617E340B3D01FA5F11F306F4090FD50E238070D''] \<and>
      [''0x8617E340B3D01FA5F11F306F4090FD50E238070D''] \<noteq> [] \<and>
      getSigner answering_wallet = Inr ''0x8617E340B3D01FA5F11F306F4090FD50E238070D'' \<and>
      getNetwork answering_wallet = Inr 1 \<and>
      getBalance answering_wallet ''0x8617E340B3D01FA5F11F306F4090FD50E238070D'' = Inr 0"
    by (simp add: answering_wallet_def)
  from handleAccountsChanged_transitions[of "\<lambda>wei. ''0.0''" "Some answering_wallet" connected_wallet
      "[''0x8617E340B3D01FA5F11F306F4090FD50E238070D'']" answering_wallet
      "[''0x8617E340B3D01FA5F11F306F4090FD50E238070D'']"
      "''0x8617E340B3D01FA5F11F306F4090FD50E238070D''" 1 0] h
  show ?thesis by simp
qed

lemma handleAccountsChanged_wallet_rejects:
  assumes "accounts \<noteq> []" and "eth_accounts eth = Inl e"
  shows "handleAccountsChanged formatEther (Some eth) accounts w =
         w\<lparr>address := hd accounts, networkStatus := Unknown\<rparr>"
  using assms by (simp add: handleAccountsChanged_def checkConnection_def)

section \<open>The invariant of the registry\<close>

lemma named_add_record:
  assumes "named ts" "admissible token"
  shows "named (add_record ts token)"
proof -
  from assms(2) obtain n sy where "token ''name'' = Some (JStr n)" "token ''symbol'' = Some (JStr sy)"
    unfolding admissible_def using is_string_cases by blast
  then have merged: "is_string ((t ++ token) ''name'') \<and> is_string ((t ++ token) ''symbol'')" for t
    by (simp add: map_add_def)
  show ?thesis
  proof (cases "first_index (\<lambda>t. laddr t = laddr token) ts")
    case None
    with assms show ?thesis
      by (simp add: add_record_def named_def admissible_def)
  next
    case (Some i)
    have "\<forall>t\<in>set (ts[i := (ts ! i) ++ token]). is_string (t ''name'') \<and> is_string (t ''symbol'')"
    proof
      fix t assume "t \<in> set (ts[i := (ts ! i) ++ token])"
      then have "t \<in> insert ((ts ! i) ++ token) (set ts)"
        by (rule set_update_subset_insert[THEN subsetD])
      then consider "t = (ts ! i) ++ token" | "t \<in> set ts" by auto
      then show "is_string (t ''name'') \<and> is_string (t ''symbol'')"
      proof cases
        case 1
        then show ?thesis using merged[of "ts ! i"] by simp
      next
        case 2
        then show ?thesis using assms(1) unfolding named_def by blast
      qed
    qed
    with Some show ?thesis by (simp add: add_record_def named_def)
  qed
qed

lemma registry_invariant_cong:
  "\<forall>k. stored s' k = stored s k \<Longrightarrow> registry_invariant s' = registry_invariant s"
  by (simp add: registry_invariant_def)

lemma stored_console_error [simp]: "stored (console_error s msg) k = stored s k"
  by (simp add: stored_def console_error_def)

lemma invariant_addUserToken:
  assumes "registry_invariant s" "admissible token" "addUserToken s owner token = Inr s'"
  shows "registry_invariant s'"
proof -
  let ?o = "toLowerCase owner"
  from assms(1) have old: "well_formed (stored s ?o)" "named (stored s ?o)" "no_duplicates (stored s ?o)"
    by (simp_all add: registry_invariant_def)
  from assms(2) have str: "is_string (token ''address'')"
    by (simp add: admissible_def)
  from addUserToken_pure[of s owner token] old(1) str assms(3)
  have s': "s' = saveToStorage (s\<lparr>userTokens := (userTokens s)(?o \<mapsto> add_record (stored s ?o) token)\<rparr>)"
    by simp
  have st: "stored s' k = (if k = ?o then add_record (stored s ?o) token else stored s k)" for k
    by (simp add: s' stored_update)
  show ?thesis
    unfolding registry_invariant_def
  proof
    fix k
    show "well_formed (stored s' k) \<and> named (stored s' k) \<and> no_duplicates (stored s' k)"
    proof (cases "k = ?o")
      case True
      with old str assms(2) show ?thesis
        by (simp add: st well_formed_add_record named_add_record no_duplicates_add_record)
    next
      case False
      with assms(1) show ?thesis by (simp add: st registry_invariant_def)
    qed
  qed
qed

lemma invariant_removeUserToken:
  assumes "registry_invariant s" "removeUserToken s owner tokenAddr = Inr s'"
  shows "registry_invariant s'"
proof -
  let ?o = "toLowerCase owner"
  let ?keep = "filter (\<lambda>t. laddr t \<noteq> toLowerCase tokenAddr) (stored s ?o)"
  from assms(1) have old: "well_formed (stored s ?o)" "named (stored s ?o)" "no_duplicates (stored s ?o)"
    by (simp_all add: registry_invariant_def)
  from removeUserToken_pure[OF old(1), of tokenAddr] assms(2)
  have s': "s' = saveToStorage (s\<lparr>userTokens := (userTokens s)(?o \<mapsto> ?keep)\<rparr>)"
    by simp
  have st: "stored s' k = (if k = ?o then ?keep else stored s k)" for k
    by (simp add: s' stored_update)
  have "well_formed ?keep \<and> named ?keep \<and> no_duplicates ?keep"
    using old by (simp add: well_formed_def named_def no_duplicates_def distinct_map_filter)
  with assms(1) show ?thesis
    by (simp add: registry_invariant_def st)
qed

lemma stored_updateTokenMetadata [simp]:
  "stored (updateTokenMetadata s tokenAddr metadata) k = stored s k"
  by (simp add: updateTokenMetadata_unfold stored_def)

lemma isValidToken_admissible: "isValidToken isAddress t \<Longrightarrow> admissible t"
  by (simp add: isValidToken_def admissible_def)

lemma invariant_import_tokens:
  assumes "registry_invariant s" "import_tokens isAddress s owner entries = (failure, s')"
  shows "registry_invariant s'"
  using assms
proof (induction entries arbitrary: s)
  case Nil
  then show ?case by simp
next
  case (Cons e es)
  show ?case
  proof (cases "props e")
    case (Inl err)
    with Cons.prems show ?thesis by simp
  next
    case (Inr t)
    show ?thesis
    proof (cases "isValidToken isAddress t")
      case False
      with Inr Cons.prems Cons.IH show ?thesis by simp
    next
      case True
      show ?thesis
      proof (cases "addUserToken s owner t")
        case (Inl err)
        with Inr True Cons.prems show ?thesis by simp
      next
        case (Inr m)
        from Cons.prems(1) isValidToken_admissible[OF True] Inr
        have "registry_invariant m" by (rule invariant_addUserToken)
        moreover from \<open>props e = Inr t\<close> True Inr Cons.prems(2)
        have "import_tokens isAddress m owner es = (failure, s')" by simp
        ultimately show ?thesis by (rule Cons.IH)
      qed
    qed
  qed
qed

lemma invariant_importUserData:
  assumes "registry_invariant s" "importUserData isAddress s owner data = (ok, s')"
  shows "registry_invariant s'"
proof -
  have log: "registry_invariant (console_error m msg) = registry_invariant m" for m msg
    by (rule registry_invariant_cong) simp
  show ?thesis
  proof (cases "JSON_parse data")
    case (Inl e)
    with assms show ?thesis by (auto simp: importUserData_def log)
  next
    case parsed: (Inr v)
    show ?thesis
    proof (cases "props v")
      case (Inl e)
      with parsed assms show ?thesis by (auto simp: importUserData_def log)
    next
      case (Inr p)
      show ?thesis
      proof (cases "\<not> truthy (p ''tokens'') \<or> \<not> isArray (p ''tokens'')")
        case True
        with parsed Inr assms show ?thesis by (auto simp: importUserData_def log)
      next
        case False
        obtain failure m where loop: "import_tokens isAddress s owner (elements (p ''tokens'')) = (failure, m)"
          by (cases "import_tokens isAddress s owner (elements (p ''tokens''))") auto
        from assms(1) loop have "registry_invariant m" by (rule invariant_import_tokens)
        moreover from parsed Inr False loop assms(2) have "s' = m \<or> s' = console_error m ''Error importing user data:''"
          by (auto simp: importUserData_def split: option.splits)
        ultimately show ?thesis by (auto simp: log)
      qed
    qed
  qed
qed

lemma invariant_exportUserData:
  assumes "registry_invariant s" "exportUserData toISOString s owner = Inr (document, s')"
  shows "registry_invariant s'"
proof -
  from assms(2) have "s' = s\<lparr>clock := stl (clock s)\<rparr>"
    by (auto simp: exportUserData_def Date_now_def split: sum.splits)
  then have "\<forall>k. stored s' k = stored s k" by (simp add: stored_def)
  then have "registry_invariant s' = registry_invariant s"
    by (rule registry_invariant_cong)
  with assms(1) show ?thesis by simp
qed

lemma invariant_add_tokens:
  assumes "registry_invariant s" "\<forall>t\<in>set tokens. admissible t"
    and "add_tokens s owner tokens = (failure, s')"
  shows "registry_invariant s'"
  using assms
proof (induction tokens arbitrary: s)
  case Nil
  then show ?case by simp
next
  case (Cons t tokens)
  show ?case
  proof (cases "addUserToken s owner t")
    case (Inl e)
    with Cons.prems show ?thesis by simp
  next
    case (Inr m)
    from Cons.prems have "admissible t" by simp
    with Cons.prems(1) have "registry_invariant m" using Inr by (rule invariant_addUserToken)
    moreover from Cons.prems have "\<forall>t\<in>set tokens. admissible t" by simp
    moreover from Inr Cons.prems(3) have "add_tokens m owner tokens = (failure, s')" by simp
    ultimately show ?thesis by (rule Cons.IH)
  qed
qed

lemma userToken_of_admissible: "admissible (userToken_of chainId factoryToken)"
  by (simp add: admissible_def userToken_of_def)

lemma invariant_syncWithBlockchain:
  assumes "registry_invariant s"
    and "syncWithBlockchain s signer owner chainId response = (failure, s')"
  shows "registry_invariant s'"
proof (cases "\<not> signer \<or> owner = []")
  case True
  with assms show ?thesis by (auto simp: syncWithBlockchain_def)
next
  case False
  show ?thesis
  proof (cases response)
    case (Inl e)
    with False assms show ?thesis by (auto simp: syncWithBlockchain_def)
  next
    case (Inr factoryTokens)
    with False assms(2)
    have "add_tokens s owner (map (userToken_of chainId) factoryTokens) = (failure, s')"
      by (auto simp: syncWithBlockchain_def)
    moreover have "\<forall>t\<in>set (map (userToken_of chainId) factoryTokens). admissible t"
      by (simp add: userToken_of_admissible)
    ultimately show ?thesis using assms(1) invariant_add_tokens by blast
  qed
qed

lemma reaches_invariant:
  assumes "reaches s0 s" and "registry_invariant s0"
  shows "registry_invariant s"
  using assms
proof (induction rule: reaches.induct)
  case start
  then show ?case .
next
  case (add s token owner s')
  then show ?case using invariant_addUserToken by blast
next
  case (update s tokenAddr metadata)
  then have "registry_invariant s" by simp
  then show ?case
    using registry_invariant_cong[of "updateTokenMetadata s tokenAddr metadata" s] by simp
next
  case (remove s owner tokenAddr s')
  then show ?case using invariant_removeUserToken by blast
next
  case (import s isAddress owner data ok s')
  then show ?case using invariant_importUserData by blast
next
  case (export s toISOString owner document s')
  then show ?case using invariant_exportUserData by blast
next
  case (sync s signer owner chainId response failure s')
  then show ?case using invariant_syncWithBlockchain by blast
qed

lemma empty_registry_invariant: "registry_invariant empty_registry"
  by (simp add: registry_invariant_def stored_def empty_registry_def well_formed_def named_def
        no_duplicates_def)

section \<open>The clock along a run\<close>

lemma timely_userTokens [simp]: "timely (s\<lparr>userTokens := u\<rparr>) = timely s"
  by (simp add: timely_def clock_advances_def stamps_past_def)

lemma timely_console_error [simp]: "timely (console_error s msg) = timely s"
  by (simp add: timely_def clock_advances_def stamps_past_def console_error_def)

lemma timely_save: "timely s \<Longrightarrow> timely (saveToStorage s)"
  using timely_saveToStorage[of s] by (simp add: timely_def)

lemma timely_tick:
  assumes "timely s"
  shows "timely (s\<lparr>clock := stl (clock s)\<rparr>)"
proof -
  from assms have adv: "clock_advances s" and past: "stamps_past s"
    by (simp_all add: timely_def)
  have "clock_advances (s\<lparr>clock := stl (clock s)\<rparr>)"
    using adv by (rule clock_advances_stl) simp
  moreover have "stamps_past (s\<lparr>clock := stl (clock s)\<rparr>)"
    unfolding stamps_past_def
  proof
    fix a
    have "lastUpdated_of (tokenMetadata s a) \<le> shd (clock s)"
      using past by (simp add: stamps_past_def)
    also have "\<dots> \<le> shd (stl (clock s))"
      using adv by (rule clock_advances_shd_stl)
    finally show "lastUpdated_of (tokenMetadata (s\<lparr>clock := stl (clock s)\<rparr>) a)
        \<le> shd (clock (s\<lparr>clock := stl (clock s)\<rparr>))"
      by simp
  qed
  ultimately show ?thesis by (simp add: timely_def)
qed

lemma timely_addUserToken:
  assumes "timely s" "addUserToken s owner token = Inr s'"
  shows "timely s'"
proof -
  from assms(2) obtain ts where "s' = saveToStorage (s\<lparr>userTokens := (userTokens s)(toLowerCase owner \<mapsto> ts)\<rparr>)"
    by (auto simp: addUserToken_def Let_def split: sum.splits)
  with assms(1) show ?thesis by (simp add: timely_save)
qed

lemma timely_removeUserToken:
  assumes "timely s" "removeUserToken s owner tokenAddr = Inr s'"
  shows "timely s'"
proof -
  from assms(2) obtain ts where "s' = saveToStorage (s\<lparr>userTokens := (userTokens s)(toLowerCase owner \<mapsto> ts)\<rparr>)"
    by (auto simp: removeUserToken_def Let_def split: sum.splits)
  with assms(1) show ?thesis by (simp add: timely_save)
qed

lemma timely_updateTokenMetadata:
  assumes "timely s"
  shows "timely (updateTokenMetadata s tokenAddr metadata)"
proof -
  let ?a = "toLowerCase tokenAddr"
  define entry where
    "entry = ((case tokenMetadata s ?a of None \<Rightarrow> [''lastUpdated'' \<mapsto> JNum 0] | Some m \<Rightarrow> m)
                ++ metadata)(''lastUpdated'' \<mapsto> JNum (shd (clock s)))"
  define m where "m = s\<lparr>clock := stl (clock s), tokenMetadata := (tokenMetadata s)(?a \<mapsto> entry)\<rparr>"
  from assms have adv: "clock_advances s" and past: "stamps_past s"
    by (simp_all add: timely_def)
  have run: "updateTokenMetadata s tokenAddr metadata = saveToStorage m"
    by (simp add: updateTokenMetadata_unfold m_def entry_def)
  have "clock_advances m"
    using adv by (rule clock_advances_stl) (simp add: m_def)
  moreover have "stamps_past m"
    unfolding stamps_past_def
  proof
    fix a
    have next_reading: "shd (clock s) \<le> shd (clock m)"
      using clock_advances_shd_stl[OF adv] by (simp add: m_def)
    show "lastUpdated_of (tokenMetadata m a) \<le> shd (clock m)"
    proof (cases "a = ?a")
      case True
      then show ?thesis using next_reading by (simp add: m_def lastUpdated_of_def entry_def)
    next
      case False
      have "lastUpdated_of (tokenMetadata s a) \<le> shd (clock s)"
        using past by (simp add: stamps_past_def)
      with False next_reading show ?thesis by (simp add: m_def)
    qed
  qed
  ultimately have "timely m" by (simp add: timely_def)
  then show ?thesis unfolding run by (rule timely_save)
qed

lemma timely_import_tokens:
  assumes "timely s" "import_tokens isAddress s owner entries = (failure, s')"
  shows "timely s'"
  using assms
proof (induction entries arbitrary: s)
  case Nil
  then show ?case by simp
next
  case (Cons e es)
  show ?case
  proof (cases "props e")
    case (Inl err)
    with Cons.prems show ?thesis by simp
  next
    case (Inr t)
    show ?thesis
    proof (cases "isValidToken isAddress t")
      case False
      with Inr Cons.prems Cons.IH show ?thesis by simp
    next
      case True
      show ?thesis
      proof (cases "addUserToken s owner t")
        case (Inl err)
        with Inr True Cons.prems show ?thesis by simp
      next
        case (Inr m)
        from Cons.prems(1) Inr have "timely m" by (rule timely_addUserToken)
        moreover from \<open>props e = Inr t\<close> True Inr Cons.prems(2)
        have "import_tokens isAddress m owner es = (failure, s')" by simp
        ultimately show ?thesis by (rule Cons.IH)
      qed
    qed
  qed
qed

lemma timely_importUserData:
  assumes "timely s" "importUserData isAddress s owner data = (ok, s')"
  shows "timely s'"
proof (cases "JSON_parse data")
  case (Inl e)
  with assms show ?thesis by (auto simp: importUserData_def)
next
  case parsed: (Inr v)
  show ?thesis
  proof (cases "props v")
    case (Inl e)
    with parsed assms show ?thesis by (auto simp: importUserData_def)
  next
    case (Inr p)
    show ?thesis
    proof (cases "\<not> truthy (p ''tokens'') \<or> \<not> isArray (p ''tokens'')")
      case True
      with parsed Inr assms show ?thesis by (auto simp: importUserData_def)
    next
      case False
      obtain failure m where loop: "import_tokens isAddress s owner (elements (p ''tokens'')) = (failure, m)"
        by (cases "import_tokens isAddress s owner (elements (p ''tokens''))") auto
      from assms(1) loop have "timely m" by (rule timely_import_tokens)
      moreover from parsed Inr False loop assms(2) have "s' = m \<or> s' = console_error m ''Error importing user data:''"
        by (auto simp: importUserData_def split: option.splits)
      ultimately show ?thesis by auto
    qed
  qed
qed

lemma timely_exportUserData:
  assumes "timely s" "exportUserData toISOString s owner = Inr (document, s')"
  shows "timely s'"
proof -
  from assms(2) have "s' = s\<lparr>clock := stl (clock s)\<rparr>"
    by (auto simp: exportUserData_def Date_now_def split: sum.splits)
  with assms(1) show ?thesis by (simp add: timely_tick)
qed

lemma timely_add_tokens:
  assumes "timely s" "add_tokens s owner tokens = (failure, s')"
  shows "timely s'"
  using assms
proof (induction tokens arbitrary: s)
  case Nil
  then show ?case by simp
next
  case (Cons t tokens)
  show ?case
  proof (cases "addUserToken s owner t")
    case (Inl e)
    with Cons.prems show ?thesis by simp
  next
    case (Inr m)
    from Cons.prems(1) Inr have "timely m" by (rule timely_addUserToken)
    moreover from Inr Cons.prems(2) have "add_tokens m owner tokens = (failure, s')" by simp
    ultimately show ?thesis by (rule Cons.IH)
  qed
qed

lemma timely_syncWithBlockchain:
  assumes "timely s" "syncWithBlockchain s signer owner chainId response = (failure, s')"
  shows "timely s'"
proof (cases "\<not> signer \<or> owner = []")
  case True
  with assms show ?thesis by (auto simp: syncWithBlockchain_def)
next
  case False
  show ?thesis
  proof (cases response)
    case (Inl e)
    with False assms show ?thesis by (auto simp: syncWithBlockchain_def)
  next
    case (Inr factoryTokens)
    with False assms(2)
    have "add_tokens s owner (map (userToken_of chainId) factoryTokens) = (failure, s')"
      by (auto simp: syncWithBlockchain_def)
    with assms(1) show ?thesis by (rule timely_add_tokens)
  qed
qed

lemma reaches_timely:
  assumes "reaches s0 s" and "timely s0"
  shows "timely s"
  using assms
proof (induction rule: reaches.induct)
  case start
  then show ?case .
next
  case (add s token owner s')
  then show ?case using timely_addUserToken by blast
next
  case (update s tokenAddr metadata)
  then show ?case using timely_updateTokenMetadata by blast
next
  case (remove s owner tokenAddr s')
  then show ?case using timely_removeUserToken by blast
next
  case (import s isAddress owner data ok s')
  then show ?case using timely_importUserData by blast
next
  case (export s toISOString owner document s')
  then show ?case using timely_exportUserData by blast
next
  case (sync s signer owner chainId response failure s')
  then show ?case using timely_syncWithBlockchain by blast
qed

text \<open>
  So the hypotheses on the state under which the properties of the registry are stated
  hold in every state that the operations lead to from the registry of a first visit.
\<close>

lemma reaches_from_empty_registry:
  assumes "reaches empty_registry s"
  shows "well_formed (stored s (toLowerCase owner)) \<and> named (stored s (toLowerCase owner)) \<and>
         no_duplicates (stored s (toLowerCase owner)) \<and> clock_advances s \<and> stamps_past s"
proof -
  have "registry_invariant s"
    using assms empty_registry_invariant by (rule reaches_invariant)
  moreover have "timely empty_registry"
    using empty_registry_timely by (simp add: timely_def)
  with assms have "timely s" by (rule reaches_timely)
  ultimately show ?thesis by (simp add: registry_invariant_def timely_def)
qed

end
